theory Spec2Isabelle
  imports Complex_Main "HOL-Library.Sublist"
begin

section \<open>JavaScript strings\<close>

text \<open>
  A JavaScript string is a sequence of UTF-16 code units. It is modelled as a list of
  natural numbers, one per code unit, so that whitespace beyond ASCII and the
  \<^verbatim>\<open>\uXXXX\<close> escapes of JSON are the values the program sees. A literal of the
  source is written \<open>js ''...''\<close>.
\<close>

type_synonym jsstring = "nat list"

definition js :: "string \<Rightarrow> jsstring" where
  "js cs = map of_char cs"

text \<open>
  \<^verbatim>\<open>String.prototype.includes\<close>: the needle occurs at some position of the text.
\<close>

fun js_includes :: "jsstring \<Rightarrow> jsstring \<Rightarrow> bool" where
  "js_includes [] needle = (needle = [])"
| "js_includes (c # cs) needle = (prefix needle (c # cs) \<or> js_includes cs needle)"

text \<open>
  \<^verbatim>\<open>String.prototype.toLowerCase\<close>, code unit by code unit. The letters of ASCII and
  Latin-1 move to their lower-case forms; \<open>U+0130\<close> and \<open>U+212A\<close> are the two
  characters outside ASCII whose lower-case form contains an ASCII letter. Every other
  code unit is kept: JavaScript maps a cased letter beyond Latin-1 to another code unit
  beyond ASCII, which no needle of this program (all ASCII) can tell apart from the
  original.
\<close>

definition lowerUnit :: "nat \<Rightarrow> jsstring" where
  "lowerUnit c =
     (if 65 \<le> c \<and> c \<le> 90 then [c + 32]
      else if (192 \<le> c \<and> c \<le> 214) \<or> (216 \<le> c \<and> c \<le> 222) then [c + 32]
      else if c = 304 then [105, 775]
      else if c = 8490 then [107]
      else [c])"

definition toLowerCase :: "jsstring \<Rightarrow> jsstring" where
  "toLowerCase s = concat (map lowerUnit s)"

text \<open>
  The white space of \<^verbatim>\<open>String.prototype.trim\<close> and of \<^verbatim>\<open>\s\<close> in a regular
  expression: the WhiteSpace and LineTerminator code units of ECMAScript.
\<close>

definition isWhiteSpace :: "nat \<Rightarrow> bool" where
  "isWhiteSpace c =
     (c = 9 \<or> c = 10 \<or> c = 11 \<or> c = 12 \<or> c = 13 \<or> c = 32 \<or> c = 160 \<or> c = 5760 \<or>
      (8192 \<le> c \<and> c \<le> 8202) \<or> c = 8232 \<or> c = 8233 \<or> c = 8239 \<or> c = 8287 \<or>
      c = 12288 \<or> c = 65279)"

definition trimStart :: "jsstring \<Rightarrow> jsstring" where
  "trimStart s = dropWhile isWhiteSpace s"

definition trimEnd :: "jsstring \<Rightarrow> jsstring" where
  "trimEnd s = rev (dropWhile isWhiteSpace (rev s))"

definition trim :: "jsstring \<Rightarrow> jsstring" where
  "trim s = trimEnd (trimStart s)"

text \<open>
  \<^verbatim>\<open>indexOf\<close> and \<^verbatim>\<open>lastIndexOf\<close> of a single code unit: the position of its
  first (last) occurrence, or \<open>-1\<close>.
\<close>

fun indexOf :: "jsstring \<Rightarrow> nat \<Rightarrow> int" where
  "indexOf [] ch = - 1"
| "indexOf (c # cs) ch =
     (if c = ch then 0 else (let i = indexOf cs ch in if i = - 1 then - 1 else i + 1))"

definition lastIndexOf :: "jsstring \<Rightarrow> nat \<Rightarrow> int" where
  "lastIndexOf s ch =
     (let i = indexOf (rev s) ch in if i = - 1 then - 1 else int (length s) - 1 - i)"

text \<open>
  \<^verbatim>\<open>s.substring(a, b)\<close>: both indices are clamped to the string and swapped when
  \<open>a > b\<close>.
\<close>

definition substring :: "jsstring \<Rightarrow> int \<Rightarrow> int \<Rightarrow> jsstring" where
  "substring s a b =
     (let n = int (length s);
          a' = max 0 (min a n);
          b' = max 0 (min b n);
          lo = min a' b';
          hi = max a' b'
      in take (nat (hi - lo)) (drop (nat lo) s))"

section \<open>Thrown values and the auth-class classifier\<close>

text \<open>
  The values the program throws and catches are error objects. The classifier reads
  four things of one: \<^verbatim>\<open>e.message\<close> (absent, or a string), the result of
  \<^verbatim>\<open>e.toString()\<close>, \<^verbatim>\<open>e.status\<close> and \<^verbatim>\<open>e.code\<close>.
\<close>

datatype jsvalue = JSUndefined | JSString jsstring | JSNumber int | JSOther

record js_error =
  message :: "jsstring option"
  toStringResult :: jsstring
  status :: jsvalue
  code :: jsvalue

text \<open>\<^verbatim>\<open>new Error(msg)\<close>: no status, no code; \<^verbatim>\<open>toString()\<close> is
  \<^verbatim>\<open>"Error: " + msg\<close>, or \<^verbatim>\<open>"Error"\<close> for the empty message.\<close>

definition Error :: "jsstring \<Rightarrow> js_error" where
  "Error msg =
     \<lparr> message = Some msg,
       toStringResult = (if msg = [] then js ''Error'' else js ''Error: '' @ msg),
       status = JSUndefined,
       code = JSUndefined \<rparr>"

text \<open>\<^verbatim>\<open>e.message || e.toString()\<close>: an absent or empty message is falsy.\<close>

definition errorText :: "js_error \<Rightarrow> jsstring" where
  "errorText e =
     (case message e of
        None \<Rightarrow> toStringResult e
      | Some m \<Rightarrow> if m = [] then toStringResult e else m)"

definition isAuthError :: "js_error \<Rightarrow> bool" where
  "isAuthError e =
     (let msg = toLowerCase (errorText e) in
        js_includes msg (js ''requested entity was not found'') \<or>
        js_includes msg (js ''404'') \<or>
        status e = JSString (js ''NOT_FOUND'') \<or>
        code e = JSNumber 404)"

section \<open>JSON\<close>

text \<open>
  \<^verbatim>\<open>JSON.parse\<close> is a built-in of the platform. It is modelled by a parser of the JSON
  grammar (ECMA-404): white space is space, tab, line feed and carriage return; a string
  holds no unescaped control character; a number has no leading zero and no leading
  plus sign. A number is kept as the text of its literal (the double it denotes is not
  modelled); an object is kept as its members in the order of the text.
\<close>

datatype json =
    JNull
  | JBool bool
  | JNumber jsstring
  | JString jsstring
  | JArray "json list"
  | JObject "(jsstring \<times> json) list"

definition isJsonWs :: "nat \<Rightarrow> bool" where
  "isJsonWs c = (c = 32 \<or> c = 9 \<or> c = 10 \<or> c = 13)"

definition skipWs :: "jsstring \<Rightarrow> jsstring" where
  "skipWs s = dropWhile isJsonWs s"

definition isDigit :: "nat \<Rightarrow> bool" where
  "isDigit c = (48 \<le> c \<and> c \<le> 57)"

definition hexVal :: "nat \<Rightarrow> nat option" where
  "hexVal c =
     (if 48 \<le> c \<and> c \<le> 57 then Some (c - 48)
      else if 97 \<le> c \<and> c \<le> 102 then Some (c - 87)
      else if 65 \<le> c \<and> c \<le> 70 then Some (c - 55)
      else None)"

definition hex4 :: "jsstring \<Rightarrow> nat option" where
  "hex4 s =
     (case s of
        a # b # c # d # _ \<Rightarrow>
          (case (hexVal a, hexVal b, hexVal c, hexVal d) of
             (Some x, Some y, Some z, Some w) \<Rightarrow> Some (((x * 16 + y) * 16 + z) * 16 + w)
           | _ \<Rightarrow> None)
      | _ \<Rightarrow> None)"

definition unescape :: "nat \<Rightarrow> nat option" where
  "unescape e =
     (if e = 34 then Some 34
      else if e = 92 then Some 92
      else if e = 47 then Some 47
      else if e = 98 then Some 8
      else if e = 102 then Some 12
      else if e = 110 then Some 10
      else if e = 114 then Some 13
      else if e = 116 then Some 9
      else None)"

definition consChar :: "nat \<Rightarrow> (jsstring \<times> jsstring) option \<Rightarrow> (jsstring \<times> jsstring) option" where
  "consChar c r = (case r of None \<Rightarrow> None | Some (s, rest) \<Rightarrow> Some (c # s, rest))"

function parseStringBody :: "jsstring \<Rightarrow> (jsstring \<times> jsstring) option" where
  "parseStringBody [] = None"
| "parseStringBody (c # cs) =
     (if c = 34 then Some ([], cs)
      else if c = 92 then
        (case cs of
           [] \<Rightarrow> None
         | e # r \<Rightarrow>
             if e = 117 then
               (case hex4 r of
                  None \<Rightarrow> None
                | Some n \<Rightarrow> consChar n (parseStringBody (drop 4 r)))
             else
               (case unescape e of
                  None \<Rightarrow> None
                | Some u \<Rightarrow> consChar u (parseStringBody r)))
      else if c < 32 then None
      else consChar c (parseStringBody cs))"
  by pat_completeness auto
termination
  by (relation "measure length") auto

definition parseInt :: "jsstring \<Rightarrow> (jsstring \<times> jsstring) option" where
  "parseInt s =
     (case s of
        [] \<Rightarrow> None
      | c # cs \<Rightarrow>
          if c = 48 then Some ([c], cs)
          else if isDigit c then Some (c # takeWhile isDigit cs, dropWhile isDigit cs)
          else None)"

definition parseFrac :: "jsstring \<Rightarrow> (jsstring \<times> jsstring) option" where
  "parseFrac s =
     (case s of
        c # cs \<Rightarrow>
          if c = 46 then
            (if takeWhile isDigit cs = [] then None
             else Some (c # takeWhile isDigit cs, dropWhile isDigit cs))
          else Some ([], s)
      | [] \<Rightarrow> Some ([], s))"

definition parseExp :: "jsstring \<Rightarrow> (jsstring \<times> jsstring) option" where
  "parseExp s =
     (case s of
        c # cs \<Rightarrow>
          if c = 101 \<or> c = 69 then
            (let sign = (case cs of d # _ \<Rightarrow> if d = 43 \<or> d = 45 then [d] else [] | [] \<Rightarrow> []);
                 ds = drop (length sign) cs
             in if takeWhile isDigit ds = [] then None
                else Some (c # sign @ takeWhile isDigit ds, dropWhile isDigit ds))
          else Some ([], s)
      | [] \<Rightarrow> Some ([], s))"

definition parseNumber :: "jsstring \<Rightarrow> (jsstring \<times> jsstring) option" where
  "parseNumber s =
     (let sign = (case s of c # _ \<Rightarrow> if c = 45 then [c] else [] | [] \<Rightarrow> []) in
      case parseInt (drop (length sign) s) of
        None \<Rightarrow> None
      | Some (i, r1) \<Rightarrow>
          (case parseFrac r1 of
             None \<Rightarrow> None
           | Some (f, r2) \<Rightarrow>
               (case parseExp r2 of
                  None \<Rightarrow> None
                | Some (e, r3) \<Rightarrow> Some (sign @ i @ f @ e, r3))))"

text \<open>
  The three parsers of nested values check that the text left over has become shorter
  before they recurse, which makes their termination evident. The check never fails:
  see \<open>parseValue_shorter\<close> below.
\<close>

function parseValue :: "jsstring \<Rightarrow> (json \<times> jsstring) option"
  and parseElements :: "jsstring \<Rightarrow> (json list \<times> jsstring) option"
  and parseMembers :: "jsstring \<Rightarrow> ((jsstring \<times> json) list \<times> jsstring) option"
where
  "parseValue s =
     (case skipWs s of
        [] \<Rightarrow> None
      | c # cs \<Rightarrow>
          if c = 123 then
            (case skipWs cs of
               [] \<Rightarrow> None
             | d # r \<Rightarrow>
                 if d = 125 then Some (JObject [], r)
                 else (case parseMembers cs of
                         None \<Rightarrow> None
                       | Some (ms, r') \<Rightarrow> Some (JObject ms, r')))
          else if c = 91 then
            (case skipWs cs of
               [] \<Rightarrow> None
             | d # r \<Rightarrow>
                 if d = 93 then Some (JArray [], r)
                 else (case parseElements cs of
                         None \<Rightarrow> None
                       | Some (vs, r') \<Rightarrow> Some (JArray vs, r')))
          else if c = 34 then
            (case parseStringBody cs of
               None \<Rightarrow> None
             | Some (str, r) \<Rightarrow> Some (JString str, r))
          else if prefix (js ''true'') (c # cs) then Some (JBool True, drop 4 (c # cs))
          else if prefix (js ''false'') (c # cs) then Some (JBool False, drop 5 (c # cs))
          else if prefix (js ''null'') (c # cs) then Some (JNull, drop 4 (c # cs))
          else (case parseNumber (c # cs) of
                  None \<Rightarrow> None
                | Some (lexeme, r) \<Rightarrow> Some (JNumber lexeme, r)))"
| "parseElements s =
     (case parseValue s of
        None \<Rightarrow> None
      | Some (v, r) \<Rightarrow>
          (case skipWs r of
             [] \<Rightarrow> None
           | c # r' \<Rightarrow>
               if c = 93 then Some ([v], r')
               else if c = 44 then
                 (if length r' < length s then
                    (case parseElements r' of
                       None \<Rightarrow> None
                     | Some (vs, r'') \<Rightarrow> Some (v # vs, r''))
                  else None)
               else None))"
| "parseMembers s =
     (case skipWs s of
        [] \<Rightarrow> None
      | c # cs \<Rightarrow>
          if c = 34 then
            (case parseStringBody cs of
               None \<Rightarrow> None
             | Some (k, r) \<Rightarrow>
                 (case skipWs r of
                    [] \<Rightarrow> None
                  | d # r1 \<Rightarrow>
                      if d = 58 \<and> length r1 < length s then
                        (case parseValue r1 of
                           None \<Rightarrow> None
                         | Some (v, r2) \<Rightarrow>
                             (case skipWs r2 of
                                [] \<Rightarrow> None
                              | e # r3 \<Rightarrow>
                                  if e = 125 then Some ([(k, v)], r3)
                                  else if e = 44 then
                                    (if length r3 < length s then
                                       (case parseMembers r3 of
                                          None \<Rightarrow> None
                                        | Some (ms, r4) \<Rightarrow> Some ((k, v) # ms, r4))
                                     else None)
                                  else None))
                      else None))
          else None)"
  by pat_completeness auto
termination
proof (relation "measure (\<lambda>x. case x of
          Inl s \<Rightarrow> 2 * length s
        | Inr (Inl s) \<Rightarrow> 2 * length s + 1
        | Inr (Inr s) \<Rightarrow> 2 * length s + 1)")
  show "wf (measure (\<lambda>x. case x of
          Inl s \<Rightarrow> 2 * length s
        | Inr (Inl s) \<Rightarrow> 2 * length s + 1
        | Inr (Inr s) \<Rightarrow> 2 * length s + 1))" by simp
next
  fix s c cs d r
  assume "skipWs s = c # cs"
  then have "length (c # cs) \<le> length s"
    unfolding skipWs_def by (metis length_dropWhile_le)
  then show "(Inr (Inr cs), Inl s) \<in> measure (\<lambda>x. case x of
          Inl s \<Rightarrow> 2 * length s
        | Inr (Inl s) \<Rightarrow> 2 * length s + 1
        | Inr (Inr s) \<Rightarrow> 2 * length s + 1)" by simp
  from \<open>length (c # cs) \<le> length s\<close>
  show "(Inr (Inl cs), Inl s) \<in> measure (\<lambda>x. case x of
          Inl s \<Rightarrow> 2 * length s
        | Inr (Inl s) \<Rightarrow> 2 * length s + 1
        | Inr (Inr s) \<Rightarrow> 2 * length s + 1)" by simp
qed auto

declare parseValue.simps [simp del] parseElements.simps [simp del] parseMembers.simps [simp del]

text \<open>
  \<^verbatim>\<open>JSON.parse(s)\<close>: one value with white space around it and nothing else; a
  SyntaxError is thrown otherwise. The message of that error is the engine's own; the
  program never reads it.
\<close>

definition SyntaxError :: js_error where
  "SyntaxError =
     \<lparr> message = Some (js ''Unexpected token in JSON''),
       toStringResult = js ''SyntaxError: Unexpected token in JSON'',
       status = JSUndefined,
       code = JSUndefined \<rparr>"

definition JSON_parse :: "jsstring \<Rightarrow> js_error + json" where
  "JSON_parse s =
     (case parseValue s of
        None \<Rightarrow> Inl SyntaxError
      | Some (v, r) \<Rightarrow> if skipWs r = [] then Inr v else Inl SyntaxError)"

text \<open>
  \<^verbatim>\<open>JSON.stringify\<close>: a string is quoted with the escapes of the standard (a lone
  surrogate is written as a \<^verbatim>\<open>\uXXXX\<close> escape); a number is written as its
  literal. \<open>JSON_stringify\<close> is the compact form, \<open>JSON_stringify_indent\<close> the form
  \<^verbatim>\<open>JSON.stringify(v, null, 2)\<close> with two spaces per level.
\<close>

definition hexDigit :: "nat \<Rightarrow> nat" where
  "hexDigit d = (if d < 10 then 48 + d else 87 + d)"

definition unicodeEscape :: "nat \<Rightarrow> jsstring" where
  "unicodeEscape c =
     [92, 117, hexDigit (c div 4096 mod 16), hexDigit (c div 256 mod 16),
      hexDigit (c div 16 mod 16), hexDigit (c mod 16)]"

definition isHighSurrogate :: "nat \<Rightarrow> bool" where
  "isHighSurrogate c = (55296 \<le> c \<and> c \<le> 56319)"

definition isLowSurrogate :: "nat \<Rightarrow> bool" where
  "isLowSurrogate c = (56320 \<le> c \<and> c \<le> 57343)"

function quoteBody :: "jsstring \<Rightarrow> jsstring" where
  "quoteBody [] = []"
| "quoteBody (c # cs) =
     (if c = 34 then [92, 34] @ quoteBody cs
      else if c = 92 then [92, 92] @ quoteBody cs
      else if c = 8 then [92, 98] @ quoteBody cs
      else if c = 12 then [92, 102] @ quoteBody cs
      else if c = 10 then [92, 110] @ quoteBody cs
      else if c = 13 then [92, 114] @ quoteBody cs
      else if c = 9 then [92, 116] @ quoteBody cs
      else if c < 32 then unicodeEscape c @ quoteBody cs
      else if isHighSurrogate c then
        (case cs of
           [] \<Rightarrow> unicodeEscape c
         | d # r \<Rightarrow>
             if isLowSurrogate d then c # d # quoteBody r
             else unicodeEscape c @ quoteBody cs)
      else if isLowSurrogate c then unicodeEscape c @ quoteBody cs
      else c # quoteBody cs)"
  by pat_completeness auto
termination
  by (relation "measure length") auto

definition quote :: "jsstring \<Rightarrow> jsstring" where
  "quote s = [34] @ quoteBody s @ [34]"

fun joinWith :: "jsstring \<Rightarrow> jsstring list \<Rightarrow> jsstring" where
  "joinWith sep [] = []"
| "joinWith sep [x] = x"
| "joinWith sep (x # y # ys) = x @ sep @ joinWith sep (y # ys)"

fun JSON_stringify :: "json \<Rightarrow> jsstring" where
  "JSON_stringify JNull = js ''null''"
| "JSON_stringify (JBool b) = (if b then js ''true'' else js ''false'')"
| "JSON_stringify (JNumber lexeme) = lexeme"
| "JSON_stringify (JString s) = quote s"
| "JSON_stringify (JArray vs) = [91] @ joinWith [44] (map JSON_stringify vs) @ [93]"
| "JSON_stringify (JObject ms) =
     [123] @ joinWith [44] (map (\<lambda>kv. quote (fst kv) @ [58] @ JSON_stringify (snd kv)) ms) @ [125]"

fun JSON_stringify_indent :: "jsstring \<Rightarrow> json \<Rightarrow> jsstring" where
  "JSON_stringify_indent ind JNull = js ''null''"
| "JSON_stringify_indent ind (JBool b) = (if b then js ''true'' else js ''false'')"
| "JSON_stringify_indent ind (JNumber lexeme) = lexeme"
| "JSON_stringify_indent ind (JString s) = quote s"
| "JSON_stringify_indent ind (JArray vs) =
     (if vs = [] then js ''[]''
      else [91, 10] @ (ind @ js ''  '') @
           joinWith ([44, 10] @ (ind @ js ''  ''))
             (map (JSON_stringify_indent (ind @ js ''  '')) vs) @
           [10] @ ind @ [93])"
| "JSON_stringify_indent ind (JObject ms) =
     (if ms = [] then js ''{}''
      else [123, 10] @ (ind @ js ''  '') @
           joinWith ([44, 10] @ (ind @ js ''  ''))
             (map (\<lambda>kv. quote (fst kv) @ [58, 32] @
                          JSON_stringify_indent (ind @ js ''  '') (snd kv)) ms) @
           [10] @ ind @ [125])"

section \<open>The response extractor\<close>

text \<open>
  The first match of \<^verbatim>\<open>/```(?:json)?\s*([\s\S]*?)\s*```/\<close> in a text, as the capture
  of its group, or None when the text has no match. \<open>findFence\<close> splits a text at
  its first three backticks. A match starts at the first three backticks of the text
  (a later start would need three more backticks further on, which would complete a
  match at the first start as well); \<^verbatim>\<open>(?:json)?\<close> and \<^verbatim>\<open>\s*\<close> are greedy and
  take the tag and all white space after it (a shorter choice only adds code units that
  cannot begin three backticks); the lazy group then stops at the first position from
  which white space leads to three backticks, so it is the text up to the next three
  backticks without the white space at its end.
\<close>

fun findFence :: "jsstring \<Rightarrow> (jsstring \<times> jsstring) option" where
  "findFence [] = None"
| "findFence (c # cs) =
     (if prefix (js ''```'') (c # cs) then Some ([], drop 3 (c # cs))
      else (case findFence cs of
              None \<Rightarrow> None
            | Some (before, after) \<Rightarrow> Some (c # before, after)))"

definition markdownMatch :: "jsstring \<Rightarrow> jsstring option" where
  "markdownMatch cleaned =
     (case findFence cleaned of
        None \<Rightarrow> None
      | Some (before, r) \<Rightarrow>
          (let r1 = (if prefix (js ''json'') r then drop 4 r else r);
               r2 = dropWhile isWhiteSpace r1
           in case findFence r2 of
                None \<Rightarrow> None
              | Some (inner, after) \<Rightarrow> Some (trimEnd inner)))"

text \<open>
  \<^verbatim>\<open>cleaned.replace(/,(\s*[}\]])/g, '$1')\<close>: from left to right, a comma followed by
  white space and a closing brace or bracket is dropped, and the scan goes on after the
  closer.
\<close>

function fixTrailingCommas :: "jsstring \<Rightarrow> jsstring" where
  "fixTrailingCommas [] = []"
| "fixTrailingCommas (c # cs) =
     (if c = 44 then
        (case dropWhile isWhiteSpace cs of
           [] \<Rightarrow> c # fixTrailingCommas cs
         | d # r \<Rightarrow>
             if d = 125 \<or> d = 93
             then takeWhile isWhiteSpace cs @ d # fixTrailingCommas r
             else c # fixTrailingCommas cs)
      else c # fixTrailingCommas cs)"
  by pat_completeness auto
termination
proof (relation "measure length")
  fix c cs d r
  assume "dropWhile isWhiteSpace cs = d # r"
  then have "length (d # r) \<le> length cs" by (metis length_dropWhile_le)
  then show "(r, c # cs) \<in> measure length" by simp
qed auto

text \<open>
  \<open>safeJSONParse\<close>, in the steps of the source. Step 1 (\<open>unwrapMarkdown\<close>): trim, and
  take the content of a fenced block if there is one. Step 2 (\<open>outerBounds\<close>): cut the
  text down to the span from the first opener to the last closer of its kind.
\<close>

definition unwrapMarkdown :: "jsstring \<Rightarrow> jsstring" where
  "unwrapMarkdown txt =
     (let cleaned = trim txt in
      case markdownMatch cleaned of
        None \<Rightarrow> cleaned
      | Some g \<Rightarrow> trim g)"

definition outerBounds :: "jsstring \<Rightarrow> jsstring" where
  "outerBounds cleaned =
     (let firstBrace = indexOf cleaned 123;
          firstBracket = indexOf cleaned 91;
          lastBrace = lastIndexOf cleaned 125;
          lastBracket = lastIndexOf cleaned 93;
          (start, end) =
            (if firstBrace \<noteq> - 1 \<and> (firstBracket = - 1 \<or> firstBrace < firstBracket)
             then (firstBrace, lastBrace)
             else if firstBracket \<noteq> - 1 then (firstBracket, lastBracket)
             else (- 1, - 1))
      in if start \<noteq> - 1 \<and> end \<noteq> - 1 \<and> end > start
         then substring cleaned start (end + 1)
         else cleaned)"

text \<open>
  The result of \<open>safeJSONParse\<close> is what it wrote with \<^verbatim>\<open>console.error\<close> (each call
  as the list of its arguments) and what it returned (\<open>Inr\<close>) or threw (\<open>Inl\<close>).
\<close>

definition parseFailure :: js_error where
  "parseFailure =
     Error (js ''Failed to parse model response as JSON. The response might be incomplete or malformed.'')"

definition safeJSONParse :: "jsstring \<Rightarrow> jsstring list list \<times> (js_error + json)" where
  "safeJSONParse txt =
     (let cleaned = outerBounds (unwrapMarkdown txt) in
      case JSON_parse cleaned of
        Inr v \<Rightarrow> ([], Inr v)
      | Inl e \<Rightarrow>
          (case JSON_parse (fixTrailingCommas cleaned) of
             Inr v \<Rightarrow> ([], Inr v)
           | Inl e2 \<Rightarrow> ([[js ''Failed to parse JSON:'', txt]], Inl parseFailure)))"

section \<open>Predicates used in the statements and proofs\<close>

text \<open>A JSON value that is neither an array nor an object.\<close>

definition isScalar :: "json \<Rightarrow> bool" where
  "isScalar v = (case v of JArray vs \<Rightarrow> False | JObject ms \<Rightarrow> False | _ \<Rightarrow> True)"

text \<open>
  What the nested parsers leave over is the end of their input: they consumed a
  non-empty start of it, which for an object or array begins at its opener and ends at
  its closer.
\<close>

definition valueRest :: "jsstring \<Rightarrow> bool" where
  "valueRest s \<longleftrightarrow>
     (\<forall>v r. parseValue s = Some (v, r) \<longrightarrow>
        (\<exists>pre. s = pre @ r \<and> pre \<noteq> []) \<and>
        (\<forall>ms. v = JObject ms \<longrightarrow> (\<exists>a b. s = a @ 123 # b @ 125 # r)) \<and>
        (\<forall>vs. v = JArray vs \<longrightarrow> (\<exists>a b. s = a @ 91 # b @ 93 # r)))"

definition elementsRest :: "jsstring \<Rightarrow> bool" where
  "elementsRest s \<longleftrightarrow> (\<forall>vs r. parseElements s = Some (vs, r) \<longrightarrow> (\<exists>pre. s = pre @ 93 # r))"

definition membersRest :: "jsstring \<Rightarrow> bool" where
  "membersRest s \<longleftrightarrow> (\<forall>ms r. parseMembers s = Some (ms, r) \<longrightarrow> (\<exists>pre. s = pre @ 125 # r))"

section \<open>Configuration\<close>

datatype ProviderType = google | openai | ollama | volcengine | qwen | custom

datatype Language = en | zh

text \<open>
  The numbers of the inference configuration are passed on to the provider as they are;
  the program does no arithmetic on them.
\<close>

type_synonym jsnumber = real

record InferenceConfig =
  temperature :: jsnumber
  topP :: jsnumber
  maxTokens :: jsnumber

record ModelConfig =
  provider :: ProviderType
  apiKey :: jsstring
  baseUrl :: jsstring
  textModel :: jsstring
  imageModel :: "jsstring option"
  videoModel :: "jsstring option"
  inferenceConfig :: "InferenceConfig option"

text \<open>\<^verbatim>\<open>a || b\<close> on strings: the empty string is falsy.\<close>

definition orElse :: "jsstring \<Rightarrow> jsstring \<Rightarrow> jsstring" where
  "orElse a b = (if a = [] then b else a)"

section \<open>Schemas and prompts\<close>

text \<open>
  The schema objects of the source, as JSON values. The members of the SDK's
  \<^verbatim>\<open>Type\<close> enumeration are the strings of their names.
\<close>

definition ANALYSIS_JSON_SCHEMA_OBJECT :: json where
  "ANALYSIS_JSON_SCHEMA_OBJECT =
     JObject
      [(js ''type'', JString (js ''object'')),
       (js ''properties'', JObject
        [(js ''title'', JObject
          [(js ''type'', JString (js ''string'')),
           (js ''description'', JString (js ''A creative, catchy title for the story based on its theme''))]),
         (js ''characters'', JObject
          [(js ''type'', JString (js ''array'')),
           (js ''items'', JObject
            [(js ''type'', JString (js ''object'')),
             (js ''properties'', JObject
              [(js ''name'', JObject
                [(js ''type'', JString (js ''string''))]),
               (js ''description'', JObject
                [(js ''type'', JString (js ''string'')),
                 (js ''description'', JString (js ''Visual appearance description for image generation''))])]),
             (js ''required'', JArray [JString (js ''name''), JString (js ''description'')])])]),
         (js ''scenes'', JObject
          [(js ''type'', JString (js ''array'')),
           (js ''items'', JObject
            [(js ''type'', JString (js ''object'')),
             (js ''properties'', JObject
              [(js ''description'', JObject
                [(js ''type'', JString (js ''string'')),
                 (js ''description'', JString (js ''Detailed visual description of the location/setting''))])]),
             (js ''required'', JArray [JString (js ''description'')])])]),
         (js ''props'', JObject
          [(js ''type'', JString (js ''array'')),
           (js ''items'', JObject
            [(js ''type'', JString (js ''object'')),
             (js ''properties'', JObject
              [(js ''name'', JObject
                [(js ''type'', JString (js ''string''))]),
               (js ''description'', JObject
                [(js ''type'', JString (js ''string'')),
                 (js ''description'', JString (js ''Visual description of the object''))])]),
             (js ''required'', JArray [JString (js ''name''), JString (js ''description'')])])]),
         (js ''animals_plants'', JObject
          [(js ''type'', JString (js ''array'')),
           (js ''items'', JObject
            [(js ''type'', JString (js ''object'')),
             (js ''properties'', JObject
              [(js ''name'', JObject
                [(js ''type'', JString (js ''string''))]),
               (js ''description'', JObject
                [(js ''type'', JString (js ''string''))])]),
             (js ''required'', JArray [JString (js ''name''), JString (js ''description'')])])]),
         (js ''others'', JObject
          [(js ''type'', JString (js ''array'')),
           (js ''items'', JObject
            [(js ''type'', JString (js ''object'')),
             (js ''properties'', JObject
              [(js ''name'', JObject
                [(js ''type'', JString (js ''string''))]),
               (js ''description'', JObject
                [(js ''type'', JString (js ''string''))])]),
             (js ''required'', JArray [JString (js ''name''), JString (js ''description'')])])]),
         (js ''plot_points'', JObject
          [(js ''type'', JString (js ''array'')),
           (js ''items'', JObject
            [(js ''type'', JString (js ''object'')),
             (js ''properties'', JObject
              [(js ''description'', JObject
                [(js ''type'', JString (js ''string'')),
                 (js ''description'', JString (js ''What happens in this part of the story''))]),
               (js ''suggested_visual'', JObject
                [(js ''type'', JString (js ''string'')),
                 (js ''description'', JString (js ''Detailed video generation prompt including subject, setting, lighting, camera movement, and style''))])]),
             (js ''required'', JArray [JString (js ''description''), JString (js ''suggested_visual'')])])])]),
       (js ''required'', JArray [JString (js ''title''), JString (js ''characters''), JString (js ''scenes''), JString (js ''props''), JString (js ''animals_plants''), JString (js ''others''), JString (js ''plot_points'')])]"

definition analysisSchema :: json where
  "analysisSchema =
     JObject
      [(js ''type'', JString (js ''OBJECT'')),
       (js ''properties'', JObject
        [(js ''title'', JObject
          [(js ''type'', JString (js ''STRING'')),
           (js ''description'', JString (js ''A creative, catchy title for the story based on its theme''))]),
         (js ''characters'', JObject
          [(js ''type'', JString (js ''ARRAY'')),
           (js ''items'', JObject
            [(js ''type'', JString (js ''OBJECT'')),
             (js ''properties'', JObject
              [(js ''name'', JObject
                [(js ''type'', JString (js ''STRING''))]),
               (js ''description'', JObject
                [(js ''type'', JString (js ''STRING'')),
                 (js ''description'', JString (js ''Visual appearance description for image generation''))])]),
             (js ''required'', JArray [JString (js ''name''), JString (js ''description'')])])]),
         (js ''scenes'', JObject
          [(js ''type'', JString (js ''ARRAY'')),
           (js ''items'', JObject
            [(js ''type'', JString (js ''OBJECT'')),
             (js ''properties'', JObject
              [(js ''description'', JObject
                [(js ''type'', JString (js ''STRING'')),
                 (js ''description'', JString (js ''Detailed visual description of the location/setting''))])]),
             (js ''required'', JArray [JString (js ''description'')])])]),
         (js ''props'', JObject
          [(js ''type'', JString (js ''ARRAY'')),
           (js ''items'', JObject
            [(js ''type'', JString (js ''OBJECT'')),
             (js ''properties'', JObject
              [(js ''name'', JObject
                [(js ''type'', JString (js ''STRING''))]),
               (js ''description'', JObject
                [(js ''type'', JString (js ''STRING'')),
                 (js ''description'', JString (js ''Visual description of the object''))])]),
             (js ''required'', JArray [JString (js ''name''), JString (js ''description'')])])]),
         (js ''animals_plants'', JObject
          [(js ''type'', JString (js ''ARRAY'')),
           (js ''items'', JObject
            [(js ''type'', JString (js ''OBJECT'')),
             (js ''properties'', JObject
              [(js ''name'', JObject
                [(js ''type'', JString (js ''STRING''))]),
               (js ''description'', JObject
                [(js ''type'', JString (js ''STRING''))])]),
             (js ''required'', JArray [JString (js ''name''), JString (js ''description'')])])]),
         (js ''others'', JObject
          [(js ''type'', JString (js ''ARRAY'')),
           (js ''items'', JObject
            [(js ''type'', JString (js ''OBJECT'')),
             (js ''properties'', JObject
              [(js ''name'', JObject
                [(js ''type'', JString (js ''STRING''))]),
               (js ''description'', JObject
                [(js ''type'', JString (js ''STRING''))])]),
             (js ''required'', JArray [JString (js ''name''), JString (js ''description'')])])]),
         (js ''plot_points'', JObject
          [(js ''type'', JString (js ''ARRAY'')),
           (js ''items'', JObject
            [(js ''type'', JString (js ''OBJECT'')),
             (js ''properties'', JObject
              [(js ''description'', JObject
                [(js ''type'', JString (js ''STRING'')),
                 (js ''description'', JString (js ''What happens in this part of the story''))]),
               (js ''suggested_visual'', JObject
                [(js ''type'', JString (js ''STRING'')),
                 (js ''description'', JString (js ''Detailed video generation prompt including subject, setting, lighting, camera movement, and style''))])]),
             (js ''required'', JArray [JString (js ''description''), JString (js ''suggested_visual'')])])])]),
       (js ''required'', JArray [JString (js ''title''), JString (js ''characters''), JString (js ''scenes''), JString (js ''props''), JString (js ''animals_plants''), JString (js ''others''), JString (js ''plot_points'')])]"

definition POLISH_JSON_SCHEMA_OBJECT :: json where
  "POLISH_JSON_SCHEMA_OBJECT =
     JObject
      [(js ''type'', JString (js ''object'')),
       (js ''properties'', JObject
        [(js ''critique'', JObject
          [(js ''type'', JString (js ''string'')),
           (js ''description'', JString (js ''Critique of the original story pointing out conflicts, plot holes, or areas for improvement.''))]),
         (js ''rewritten_story'', JObject
          [(js ''type'', JString (js ''string'')),
           (js ''description'', JString (js ''The rewritten version of the story.''))]),
         (js ''changes_made'', JObject
          [(js ''type'', JString (js ''array'')),
           (js ''items'', JObject
            [(js ''type'', JString (js ''string''))]),
           (js ''description'', JString (js ''List of key changes made to fix the issues.''))])]),
       (js ''required'', JArray [JString (js ''critique''), JString (js ''rewritten_story''), JString (js ''changes_made'')])]"

definition polishSchema :: json where
  "polishSchema =
     JObject
      [(js ''type'', JString (js ''OBJECT'')),
       (js ''properties'', JObject
        [(js ''critique'', JObject
          [(js ''type'', JString (js ''STRING''))]),
         (js ''rewritten_story'', JObject
          [(js ''type'', JString (js ''STRING''))]),
         (js ''changes_made'', JObject
          [(js ''type'', JString (js ''ARRAY'')),
           (js ''items'', JObject
            [(js ''type'', JString (js ''STRING''))])])]),
       (js ''required'', JArray [JString (js ''critique''), JString (js ''rewritten_story''), JString (js ''changes_made'')])]"

text \<open>The prompt of \<open>analyzeStoryGoogle\<close>.\<close>

definition analysisLangInstruction :: "Language \<Rightarrow> jsstring" where
  "analysisLangInstruction lang =
     (if lang = zh
      then js ''IMPORTANT: All 'title', 'description' (for assets and plot_points), and 'name' fields MUST be in Chinese (Simplified). HOWEVER, the 'suggested_visual' field MUST remain in English to ensure better compatibility with video generation models.''
      else js ''Respond in English.'')"

definition analysisPrompt :: "jsstring \<Rightarrow> Language \<Rightarrow> jsstring" where
  "analysisPrompt storyText lang =
     ((js ''Analyze the following folktale. \<newline>'' @
       js ''    1. Generate a creative, catchy title for the story.\<newline>'' @
       js ''    2. Extract characters, scenes, props, animals/plants, and key plot points. \<newline>'' @
       js ''    For descriptions, ensure they are highly visual and suitable for an image generation prompt (e.g., 'Cinematic lighting, detailed texture').\<newline>'' @
       js ''    \<newline>'' @
       js ''    For the 'suggested_visual' field in plot_points, create a highly detailed prompt for video generation. It MUST include:\<newline>'' @
       js ''    - Detailed description of the visible action.\<newline>'' @
       js ''    - Visual appearance of characters and setting (referencing extracted assets where possible).\<newline>'' @
       js ''    - Lighting (e.g., 'golden hour', 'cinematic', 'dramatic').\<newline>'' @
       js ''    - Camera movement (e.g., 'slow pan', 'zoom', 'static shot').\<newline>'' @
       js ''    - Style (e.g., 'photorealistic', '8k', 'highly detailed', 'folklore style').\<newline>'' @
       js ''\<newline>'' @
       js ''    '') @
      analysisLangInstruction lang @
      (js ''\<newline>'' @
       js ''\<newline>'' @
       js ''    Story: '') @
      storyText)"

definition analysisFallbackContents :: "jsstring \<Rightarrow> jsstring" where
  "analysisFallbackContents prompt =
     prompt @
     (js ''\<newline>'' @
       js ''\<newline>'' @
       js ''IMPORTANT: Return the result as a valid JSON object matching this structure:\<newline>'') @
     JSON_stringify_indent [] ANALYSIS_JSON_SCHEMA_OBJECT"

text \<open>The system message of \<open>analyzeStoryOpenAICompatible\<close>.\<close>

definition compatLangInstruction :: "Language \<Rightarrow> jsstring" where
  "compatLangInstruction lang =
     (if lang = zh
      then js ''All descriptions, titles, and names MUST be in Chinese (Simplified). The 'suggested_visual' field MUST be in English.''
      else [])"

definition analysisSystemMessage :: "Language \<Rightarrow> jsstring" where
  "analysisSystemMessage lang =
     ((js ''You are a story analysis assistant. Analyze the folktale provided. \<newline>'' @
       js ''            1. Generate a creative, catchy title for the story.\<newline>'' @
       js ''            2. Extract characters, scenes, props, animals/plants, and key plot points.\<newline>'' @
       js ''            For descriptions, ensure they are highly visual and suitable for image generation.\<newline>'' @
       js ''            \<newline>'' @
       js ''            For the 'suggested_visual' field in plot_points, create a highly detailed prompt for video generation. It MUST include:\<newline>'' @
       js ''            - Detailed description of the visible action.\<newline>'' @
       js ''            - Visual appearance of characters and setting (referencing extracted assets where possible).\<newline>'' @
       js ''            - Lighting (e.g., 'cinematic', 'dramatic').\<newline>'' @
       js ''            - Camera movement (e.g., 'slow pan', 'zoom').\<newline>'' @
       js ''            - Style (e.g., 'photorealistic', '8k', 'folklore style').\<newline>'' @
       js ''            \<newline>'' @
       js ''            '') @
      compatLangInstruction lang @
      (js ''\<newline>'' @
       js ''\<newline>'' @
       js ''            You MUST respond with valid JSON strictly matching this schema:\<newline>'' @
       js ''            '') @
      JSON_stringify ANALYSIS_JSON_SCHEMA_OBJECT @
      (js ''\<newline>'' @
       js ''            ''))"

text \<open>The prompts of \<open>polishStory\<close>.\<close>

definition polishLangInstruction :: "Language \<Rightarrow> jsstring" where
  "polishLangInstruction lang =
     (if lang = zh
      then js ''OUTPUT INSTRUCTION: Return the 'critique', 'rewritten_story', and 'changes_made' in Chinese (Simplified).''
      else js ''Respond in English.'')"

definition polishPrompt :: "jsstring \<Rightarrow> Language \<Rightarrow> jsstring" where
  "polishPrompt storyText lang =
     ((js ''\<newline>'' @
       js ''    Act as a professional story editor and script doctor.\<newline>'' @
       js ''    Analyze the following story draft. Identify:\<newline>'' @
       js ''    1. Logical inconsistencies or plot holes.\<newline>'' @
       js ''    2. Narrative flow issues.\<newline>'' @
       js ''    3. Character motivation conflicts.\<newline>'' @
       js ''    \<newline>'' @
       js ''    Then, rewrite the story to fix these issues while maintaining the original tone. \<newline>'' @
       js ''    Make it more engaging and suitable for visual storytelling.\<newline>'' @
       js ''\<newline>'' @
       js ''    '') @
      polishLangInstruction lang @
      (js ''\<newline>'' @
       js ''\<newline>'' @
       js ''    Original Story:\<newline>'' @
       js ''    '') @
      storyText @
      (js ''\<newline>'' @
       js ''    ''))"

definition polishFallbackContents :: "jsstring \<Rightarrow> jsstring" where
  "polishFallbackContents prompt =
     prompt @
     (js ''\<newline>'' @
       js ''\<newline>'' @
       js ''IMPORTANT: Return valid JSON matching this structure:\<newline>'') @
     JSON_stringify POLISH_JSON_SCHEMA_OBJECT"

definition polishSystemMessage :: "Language \<Rightarrow> jsstring" where
  "polishSystemMessage lang =
     ((js ''You are a professional story editor. \<newline>'' @
       js ''                Analyze the user's story for conflicts and logical errors. Rewrite it to be better.\<newline>'' @
       js ''                '') @
      polishLangInstruction lang @
      (js ''\<newline>'' @
       js ''                Return strictly valid JSON matching this schema:\<newline>'' @
       js ''                '') @
      JSON_stringify POLISH_JSON_SCHEMA_OBJECT)"

section \<open>The environment of a call\<close>

text \<open>
  The requests of the program and what the SDK hands back.
\<close>

datatype HarmCategory =
    HARM_CATEGORY_HATE_SPEECH
  | HARM_CATEGORY_SEXUALLY_EXPLICIT
  | HARM_CATEGORY_HARASSMENT
  | HARM_CATEGORY_DANGEROUS_CONTENT

datatype HarmBlockThreshold = BLOCK_NONE

definition SAFETY_SETTINGS :: "(HarmCategory \<times> HarmBlockThreshold) list" where
  "SAFETY_SETTINGS =
     [(HARM_CATEGORY_HATE_SPEECH, BLOCK_NONE),
      (HARM_CATEGORY_SEXUALLY_EXPLICIT, BLOCK_NONE),
      (HARM_CATEGORY_HARASSMENT, BLOCK_NONE),
      (HARM_CATEGORY_DANGEROUS_CONTENT, BLOCK_NONE)]"

text \<open>
  The argument of \<^verbatim>\<open>ai.models.generateContent\<close>, with the key of the client that
  sends it. \<open>contents\<close> is a string, or \<^verbatim>\<open>{ parts: [{ text }] }\<close>.
\<close>

datatype gen_contents = TextContents jsstring | PartsContents "jsstring list"

record gen_config =
  responseMimeType :: "jsstring option"
  responseSchema :: "json option"
  cfg_temperature :: "jsnumber option"
  cfg_topP :: "jsnumber option"
  maxOutputTokens :: "jsnumber option"
  safetySettings :: "(HarmCategory \<times> HarmBlockThreshold) list"

record gen_request =
  clientKey :: jsstring
  model :: jsstring
  contents :: gen_contents
  config :: gen_config

text \<open>
  What the program reads of a response: \<^verbatim>\<open>response.text\<close> and
  \<^verbatim>\<open>response.candidates?.[0]?.content?.parts\<close>. An absent string field of a part is
  the empty string (the program only tests such a field for truthiness).
\<close>

record inline_data =
  data :: jsstring
  mimeType :: jsstring

record part =
  inlineData :: "inline_data option"
  part_text :: jsstring

record gen_response =
  response_text :: "jsstring option"
  response_parts :: "part list option"

text \<open>\<^verbatim>\<open>ai.models.generateImages\<close>.\<close>

record image_request =
  img_clientKey :: jsstring
  img_model :: jsstring
  img_prompt :: jsstring
  numberOfImages :: nat
  outputMimeType :: jsstring
  img_aspectRatio :: jsstring

text \<open>
  \<^verbatim>\<open>ai.models.generateVideos\<close> and the operation it starts. Of an operation the
  program reads \<^verbatim>\<open>done\<close> and \<^verbatim>\<open>response?.generatedVideos?.[0]?.video?.uri\<close>.
\<close>

datatype AspectRatio = Landscape_16_9 | Portrait_9_16

record video_image =
  imageBytes :: jsstring
  vimg_mimeType :: jsstring

record video_request =
  vid_clientKey :: jsstring
  vid_model :: jsstring
  vid_prompt :: jsstring
  vid_image :: "video_image option"
  numberOfVideos :: nat
  resolution :: jsstring
  aspectRatio :: AspectRatio

record operation =
  op_done :: bool
  videoUri :: "jsstring option"

text \<open>
  \<^verbatim>\<open>fetch\<close>. The body of a request is kept as the object the program passes to
  \<^verbatim>\<open>JSON.stringify\<close>: the body of a chat request, where a field that is
  \<^verbatim>\<open>undefined\<close> is None, or the body of an image request.
\<close>

record chat_body =
  chat_model :: jsstring
  messages :: "(jsstring \<times> jsstring) list"
  chat_temperature :: "jsnumber option"
  top_p :: "jsnumber option"
  max_tokens :: "jsnumber option"
  response_format :: "jsstring option"
  format :: "jsstring option"
  stream :: "bool option"

record image_body =
  image_model :: jsstring
  image_prompt :: jsstring
  image_count :: nat
  image_size :: jsstring
  image_response_format :: jsstring

datatype request_body = ChatBody chat_body | ImageBody image_body

record http_request =
  url :: jsstring
  http_method :: jsstring
  headers :: "(jsstring \<times> jsstring) list"
  body :: "request_body option"

record http_response =
  http_status :: nat
  response_body :: jsstring

text \<open>
  Everything a call does to the outside, in order, is its trace. \<open>world\<close> is the state
  a call reads and changes: \<^verbatim>\<open>process.env.API_KEY\<close> and the trace so far.
\<close>

datatype event =
    GenerateContent gen_request
  | GenerateImages image_request
  | GenerateVideos video_request
  | GetVideosOperation jsstring operation
  | SetTimeout nat
  | Fetch http_request
  | OpenSelectKey

record world =
  API_KEY :: "jsstring option"
  trace :: "event list"

text \<open>
  \<^verbatim>\<open>window.aistudio\<close>, when it is there: whether it has the property
  \<^verbatim>\<open>hasSelectedApiKey\<close>, and what \<^verbatim>\<open>openSelectKey()\<close> does after a given trace: it
  rejects, or the dialog closes and leaves \<^verbatim>\<open>process.env.API_KEY\<close> with the given
  value.
\<close>

record AIStudio =
  hasSelectedApiKey :: bool
  openSelectKey :: "event list \<Rightarrow> js_error + jsstring option"

text \<open>
  The outside of the program: how the provider, the network and the browser answer a
  request made after a given trace (\<open>Inl\<close>: the promise rejects with that error).
  Any run of the outside world is some such environment. \<open>numberString\<close> is the
  engine's \<^verbatim>\<open>String(x)\<close> for the number \<open>x\<close> that a JSON number text denotes; the
  arithmetic of doubles is not part of this development.
\<close>

record env =
  generateContent :: "event list \<Rightarrow> gen_request \<Rightarrow> js_error + gen_response"
  generateImages :: "event list \<Rightarrow> image_request \<Rightarrow> js_error + jsstring option"
  generateVideos :: "event list \<Rightarrow> video_request \<Rightarrow> js_error + operation"
  getVideosOperation :: "event list \<Rightarrow> jsstring \<Rightarrow> operation \<Rightarrow> js_error + operation"
  fetch :: "event list \<Rightarrow> http_request \<Rightarrow> js_error + http_response"
  createObjectURL :: "jsstring \<Rightarrow> jsstring"
  numberString :: "jsstring \<Rightarrow> jsstring"
  aistudio :: "AIStudio option"

definition emit :: "event \<Rightarrow> world \<Rightarrow> world" where
  "emit ev w = w\<lparr>trace := trace w @ [ev]\<rparr>"

definition callGenerateContent ::
  "env \<Rightarrow> gen_request \<Rightarrow> world \<Rightarrow> world \<times> (js_error + gen_response)" where
  "callGenerateContent E req w = (emit (GenerateContent req) w, generateContent E (trace w) req)"

text \<open>
  \<^verbatim>\<open>await window.aistudio.openSelectKey()\<close>: the call is made; when it resolves, the
  process-level key is what the dialog left.
\<close>

definition callOpenSelectKey :: "AIStudio \<Rightarrow> world \<Rightarrow> world \<times> (js_error + unit)" where
  "callOpenSelectKey a w =
     (case openSelectKey a (trace w) of
        Inl e \<Rightarrow> (emit OpenSelectKey w, Inl e)
      | Inr k \<Rightarrow> (emit OpenSelectKey (w\<lparr>API_KEY := k\<rparr>), Inr ()))"

text \<open>
  \<open>getGoogleClient\<close>: the client is modelled by the key it holds.
\<close>

definition getGoogleClient :: "jsstring \<Rightarrow> world \<Rightarrow> js_error + jsstring" where
  "getGoogleClient key0 w =
     (let key = (if key0 \<noteq> [] then Some key0 else API_KEY w) in
      case key of
        None \<Rightarrow> Inl (Error (js ''Google API Key is missing''))
      | Some k \<Rightarrow> if k = [] then Inl (Error (js ''Google API Key is missing'')) else Inr k)"

section \<open>Structured generation with the primary provider\<close>

text \<open>
  The closure \<open>attempt\<close> of \<open>analyzeStoryGoogle\<close> and the closure \<open>attempt\<close> of
  \<open>polishStory\<close> are the same code but for five items, which a \<open>task\<close> holds: the
  prompt, the schema of the strict request, the contents of the fallback request, and
  the messages of the errors thrown for an empty response.
\<close>

record task =
  prompt :: jsstring
  strictSchema :: json
  fallbackContents :: jsstring
  emptyStrict :: jsstring
  emptyFallback :: jsstring

definition strictRequest :: "task \<Rightarrow> ModelConfig \<Rightarrow> jsstring \<Rightarrow> gen_request" where
  "strictRequest T cfg key =
     \<lparr> clientKey = key,
       model = orElse (textModel cfg) (js ''gemini-2.5-flash''),
       contents = TextContents (prompt T),
       config =
         \<lparr> responseMimeType = Some (js ''application/json''),
           responseSchema = Some (strictSchema T),
           cfg_temperature = map_option temperature (inferenceConfig cfg),
           cfg_topP = map_option topP (inferenceConfig cfg),
           maxOutputTokens = map_option maxTokens (inferenceConfig cfg),
           safetySettings = SAFETY_SETTINGS \<rparr> \<rparr>"

definition fallbackRequest :: "task \<Rightarrow> ModelConfig \<Rightarrow> jsstring \<Rightarrow> gen_request" where
  "fallbackRequest T cfg key =
     \<lparr> clientKey = key,
       model = orElse (textModel cfg) (js ''gemini-2.5-flash''),
       contents = TextContents (fallbackContents T),
       config =
         \<lparr> responseMimeType = Some (js ''application/json''),
           responseSchema = None,
           cfg_temperature = map_option temperature (inferenceConfig cfg),
           cfg_topP = map_option topP (inferenceConfig cfg),
           maxOutputTokens = map_option maxTokens (inferenceConfig cfg),
           safetySettings = SAFETY_SETTINGS \<rparr> \<rparr>"

text \<open>
  \<^verbatim>\<open>const text = response.text; if (!text) throw new Error(msg); return safeJSONParse(text)\<close>.
  What the program writes to the console is not part of the result from here on.
\<close>

definition readResponse :: "jsstring \<Rightarrow> gen_response \<Rightarrow> js_error + json" where
  "readResponse msg resp =
     (case response_text resp of
        None \<Rightarrow> Inl (Error msg)
      | Some t \<Rightarrow> if t = [] then Inl (Error msg) else snd (safeJSONParse t))"

text \<open>
  The inner \<^verbatim>\<open>try\<close>/\<^verbatim>\<open>catch\<close>. Its \<^verbatim>\<open>try\<close> block (\<open>strictStep\<close>) is the
  strict request and what is read of its response. Its \<^verbatim>\<open>catch\<close> block throws an
  auth-class error on; for any other error it runs the fallback request and what is
  read of its response (\<open>fallbackStep\<close>), whose errors are not caught here.
\<close>

definition strictStep ::
  "env \<Rightarrow> task \<Rightarrow> ModelConfig \<Rightarrow> jsstring \<Rightarrow> world \<Rightarrow> world \<times> (js_error + json)" where
  "strictStep E T cfg key w =
     (case callGenerateContent E (strictRequest T cfg key) w of
        (w1, Inl e) \<Rightarrow> (w1, Inl e)
      | (w1, Inr resp) \<Rightarrow> (w1, readResponse (emptyStrict T) resp))"

definition fallbackStep ::
  "env \<Rightarrow> task \<Rightarrow> ModelConfig \<Rightarrow> jsstring \<Rightarrow> world \<Rightarrow> world \<times> (js_error + json)" where
  "fallbackStep E T cfg key w =
     (case callGenerateContent E (fallbackRequest T cfg key) w of
        (w1, Inl e) \<Rightarrow> (w1, Inl e)
      | (w1, Inr resp) \<Rightarrow> (w1, readResponse (emptyFallback T) resp))"

definition strictThenFallback ::
  "env \<Rightarrow> task \<Rightarrow> ModelConfig \<Rightarrow> jsstring \<Rightarrow> world \<Rightarrow> world \<times> (js_error + json)" where
  "strictThenFallback E T cfg key w =
     (case strictStep E T cfg key w of
        (w1, Inr v) \<Rightarrow> (w1, Inr v)
      | (w1, Inl e) \<Rightarrow>
          if isAuthError e then (w1, Inl e) else fallbackStep E T cfg key w1)"

text \<open>
  \<open>attempt\<close>: the client is made before the outer \<^verbatim>\<open>try\<close>, so a missing key is
  thrown at once. The outer \<^verbatim>\<open>catch\<close> asks for a key and runs \<open>attempt(true)\<close> when
  this is the first attempt, the error is auth-class and \<^verbatim>\<open>window.aistudio\<close> is there;
  it throws the error on otherwise.
\<close>

function attempt ::
  "env \<Rightarrow> task \<Rightarrow> ModelConfig \<Rightarrow> bool \<Rightarrow> world \<Rightarrow> world \<times> (js_error + json)" where
  "attempt E T cfg isRetry w =
     (case getGoogleClient (apiKey cfg) w of
        Inl e \<Rightarrow> (w, Inl e)
      | Inr key \<Rightarrow>
          (case strictThenFallback E T cfg key w of
             (w1, Inr v) \<Rightarrow> (w1, Inr v)
           | (w1, Inl e) \<Rightarrow>
               (case aistudio E of
                  Some a \<Rightarrow>
                    if \<not> isRetry \<and> isAuthError e then
                      (case callOpenSelectKey a w1 of
                         (w2, Inl e2) \<Rightarrow> (w2, Inl e2)
                       | (w2, Inr u) \<Rightarrow> attempt E T cfg True w2)
                    else (w1, Inl e)
                | None \<Rightarrow> (w1, Inl e))))"
  by pat_completeness auto
termination
  by (relation "measure (\<lambda>(E, T, cfg, isRetry, w). if isRetry then 0 else 1)") auto

declare attempt.simps [simp del]

definition analysisTask :: "jsstring \<Rightarrow> Language \<Rightarrow> task" where
  "analysisTask storyText lang =
     \<lparr> prompt = analysisPrompt storyText lang,
       strictSchema = analysisSchema,
       fallbackContents = analysisFallbackContents (analysisPrompt storyText lang),
       emptyStrict = js ''No analysis generated from Google. Content might be blocked.'',
       emptyFallback = js ''No analysis generated from Google (Fallback).'' \<rparr>"

definition analyzeStoryGoogle ::
  "env \<Rightarrow> jsstring \<Rightarrow> ModelConfig \<Rightarrow> Language \<Rightarrow> world \<Rightarrow> world \<times> (js_error + json)" where
  "analyzeStoryGoogle E storyText cfg lang w = attempt E (analysisTask storyText lang) cfg False w"

definition polishTask :: "jsstring \<Rightarrow> Language \<Rightarrow> task" where
  "polishTask storyText lang =
     \<lparr> prompt = polishPrompt storyText lang,
       strictSchema = polishSchema,
       fallbackContents = polishFallbackContents (polishPrompt storyText lang),
       emptyStrict = js ''No polish generated from Google.'',
       emptyFallback = js ''No polish generated from Google (Fallback).'' \<rparr>"

text \<open>The branch of \<open>polishStory\<close> for the provider \<open>google\<close>.\<close>

definition polishStoryGoogle ::
  "env \<Rightarrow> jsstring \<Rightarrow> ModelConfig \<Rightarrow> Language \<Rightarrow> world \<Rightarrow> world \<times> (js_error + json)" where
  "polishStoryGoogle E storyText cfg lang w = attempt E (polishTask storyText lang) cfg False w"

section \<open>Structured generation with an OpenAI-compatible provider\<close>

text \<open>\<^verbatim>\<open>config.baseUrl.replace(/\/+$/, '')\<close>: the slashes at the end are dropped.\<close>

definition stripTrailingSlashes :: "jsstring \<Rightarrow> jsstring" where
  "stripTrailingSlashes s = rev (dropWhile (\<lambda>c. c = 47) (rev s))"

definition chatEndpoint :: "ModelConfig \<Rightarrow> jsstring" where
  "chatEndpoint cfg = stripTrailingSlashes (baseUrl cfg) @ js ''/chat/completions''"

definition chatHeaders :: "ModelConfig \<Rightarrow> (jsstring \<times> jsstring) list" where
  "chatHeaders cfg =
     (js ''Content-Type'', js ''application/json'') #
     (if apiKey cfg \<noteq> [] then [(js ''Authorization'', js ''Bearer '' @ apiKey cfg)] else [])"

definition chatBody :: "ModelConfig \<Rightarrow> (jsstring \<times> jsstring) list \<Rightarrow> chat_body" where
  "chatBody cfg msgs =
     \<lparr> chat_model = textModel cfg,
       messages = msgs,
       chat_temperature = map_option temperature (inferenceConfig cfg),
       top_p = map_option topP (inferenceConfig cfg),
       max_tokens = map_option maxTokens (inferenceConfig cfg),
       response_format =
         (if provider cfg = openai \<or> provider cfg = custom \<or> provider cfg = volcengine \<or>
             provider cfg = qwen
          then (if provider cfg = openai then Some (js ''json_object'') else None)
          else None),
       format = (if provider cfg = ollama then Some (js ''json'') else None),
       stream = (if provider cfg = ollama then Some False else None) \<rparr>"

definition chatRequest :: "ModelConfig \<Rightarrow> (jsstring \<times> jsstring) list \<Rightarrow> http_request" where
  "chatRequest cfg msgs =
     \<lparr> url = chatEndpoint cfg,
       http_method = js ''POST'',
       headers = chatHeaders cfg,
       body = Some (ChatBody (chatBody cfg msgs)) \<rparr>"

definition callFetch :: "env \<Rightarrow> http_request \<Rightarrow> world \<Rightarrow> world \<times> (js_error + http_response)" where
  "callFetch E req w = (emit (Fetch req) w, fetch E (trace w) req)"

text \<open>\<^verbatim>\<open>response.ok\<close>: the status is in the range 200 to 299.\<close>

definition ok :: "http_response \<Rightarrow> bool" where
  "ok r = (200 \<le> http_status r \<and> http_status r \<le> 299)"

text \<open>A status code in a template literal: its decimal digits.\<close>

function showNat :: "nat \<Rightarrow> jsstring" where
  "showNat n = (if n < 10 then [48 + n] else showNat (n div 10) @ [48 + n mod 10])"
  by pat_completeness auto
termination
  by (relation "measure id") auto

declare showNat.simps [simp del]

text \<open>
  Reading \<^verbatim>\<open>data.choices?.[0]?.message?.content\<close> of a parsed response. A value that
  may be \<^verbatim>\<open>undefined\<close> is a \<open>json option\<close>. \<open>getProperty\<close> reads one of the names
  \<^verbatim>\<open>choices\<close>, \<^verbatim>\<open>message\<close>, \<^verbatim>\<open>content\<close>, which only an object can have (its last
  member of that name); \<open>getIndex0\<close> reads \<^verbatim>\<open>[0]\<close>. Reading a property of
  \<^verbatim>\<open>null\<close> throws a TypeError, whose message is the engine's own.
\<close>

definition TypeError :: "jsstring \<Rightarrow> js_error" where
  "TypeError msg =
     \<lparr> message = Some msg,
       toStringResult = js ''TypeError: '' @ msg,
       status = JSUndefined,
       code = JSUndefined \<rparr>"

definition getProperty :: "json \<Rightarrow> jsstring \<Rightarrow> json option" where
  "getProperty v k = (case v of JObject ms \<Rightarrow> map_of (rev ms) k | _ \<Rightarrow> None)"

definition getIndex0 :: "json \<Rightarrow> json option" where
  "getIndex0 v =
     (case v of
        JArray vs \<Rightarrow> (case vs of [] \<Rightarrow> None | x # xs \<Rightarrow> Some x)
      | JString s \<Rightarrow> (case s of [] \<Rightarrow> None | c # cs \<Rightarrow> Some (JString [c]))
      | JObject ms \<Rightarrow> map_of (rev ms) (js ''0'')
      | _ \<Rightarrow> None)"

definition nullish :: "json option \<Rightarrow> bool" where
  "nullish v = (v = None \<or> v = Some JNull)"

definition chatContent :: "json \<Rightarrow> js_error + json option" where
  "chatContent d =
     (if d = JNull then Inl (TypeError (js ''Cannot read properties of null''))
      else
        (let choices = getProperty d (js ''choices'');
             first = (if nullish choices then None else getIndex0 (the choices));
             msg = (if nullish first then None else getProperty (the first) (js ''message''))
         in Inr (if nullish msg then None else getProperty (the msg) (js ''content''))))"

text \<open>
  What follows the reading of \<open>content\<close>: the console line calls
  \<^verbatim>\<open>content?.substring\<close>, which throws a TypeError on a value that is neither nullish
  nor a string; a nullish or empty content is the error with the given message; a
  string goes to \<open>safeJSONParse\<close>.
\<close>

definition readContent :: "jsstring \<Rightarrow> json option \<Rightarrow> js_error + json" where
  "readContent msg content =
     (case content of
        None \<Rightarrow> Inl (Error msg)
      | Some JNull \<Rightarrow> Inl (Error msg)
      | Some (JString s) \<Rightarrow> if s = [] then Inl (Error msg) else snd (safeJSONParse s)
      | Some v \<Rightarrow> Inl (TypeError (js ''content?.substring is not a function'')))"

definition readChatResponse :: "jsstring \<Rightarrow> http_response \<Rightarrow> js_error + json" where
  "readChatResponse msg response =
     (case JSON_parse (response_body response) of
        Inl e \<Rightarrow> Inl e
      | Inr d \<Rightarrow>
          (case chatContent d of
             Inl e \<Rightarrow> Inl e
           | Inr content \<Rightarrow> readContent msg content))"

definition analyzeStoryOpenAICompatible ::
  "env \<Rightarrow> jsstring \<Rightarrow> ModelConfig \<Rightarrow> Language \<Rightarrow> world \<Rightarrow> world \<times> (js_error + json)" where
  "analyzeStoryOpenAICompatible E storyText cfg lang w =
     (case callFetch E
             (chatRequest cfg
                [(js ''system'', analysisSystemMessage lang), (js ''user'', storyText)]) w of
        (w1, Inl e) \<Rightarrow> (w1, Inl e)
      | (w1, Inr response) \<Rightarrow>
          if \<not> ok response then
            (w1, Inl (Error (js ''Model request failed: '' @ showNat (http_status response) @
                             js '' '' @ response_body response)))
          else (w1, readChatResponse (js ''Empty response from model'') response))"

definition analyzeStory ::
  "env \<Rightarrow> jsstring \<Rightarrow> ModelConfig \<Rightarrow> Language \<Rightarrow> world \<Rightarrow> world \<times> (js_error + json)" where
  "analyzeStory E storyText cfg lang w =
     (if provider cfg = google then analyzeStoryGoogle E storyText cfg lang w
      else analyzeStoryOpenAICompatible E storyText cfg lang w)"

text \<open>The branch of \<open>polishStory\<close> for the compatible providers.\<close>

definition polishStoryCompatible ::
  "env \<Rightarrow> jsstring \<Rightarrow> ModelConfig \<Rightarrow> Language \<Rightarrow> world \<Rightarrow> world \<times> (js_error + json)" where
  "polishStoryCompatible E storyText cfg lang w =
     (case callFetch E
             (chatRequest cfg
                [(js ''system'', polishSystemMessage lang), (js ''user'', storyText)]) w of
        (w1, Inl e) \<Rightarrow> (w1, Inl e)
      | (w1, Inr response) \<Rightarrow>
          if \<not> ok response then
            (w1, Inl (Error (js ''Polish request failed: '' @ showNat (http_status response))))
          else (w1, readChatResponse (js ''Empty response'') response))"

definition polishStory ::
  "env \<Rightarrow> jsstring \<Rightarrow> ModelConfig \<Rightarrow> Language \<Rightarrow> world \<Rightarrow> world \<times> (js_error + json)" where
  "polishStory E storyText cfg lang w =
     (if provider cfg = google then polishStoryGoogle E storyText cfg lang w
      else polishStoryCompatible E storyText cfg lang w)"

section \<open>Image generation\<close>

text \<open>
  \<open>generateAssetImage\<close>: the prompt, then one of three branches. A configuration whose
  provider is \<open>google\<close> runs the closure \<open>attempt\<close>; an OpenAI image configuration
  makes one request to the images endpoint; any other configuration runs the closure
  \<open>attemptFallback\<close> with the process-level key, when there is one.
\<close>

subsection \<open>The branch of the provider \<open>google\<close>\<close>

definition imagePrompt :: "jsstring \<Rightarrow> jsstring \<Rightarrow> jsstring option \<Rightarrow> jsstring" where
  "imagePrompt description ctx negativePrompt =
     js ''High quality, cinematic, folklore style illustration of: '' @ description @
     js ''. Context: '' @ ctx @ js ''. Detailed, 8k, masterpiece.'' @
     (case negativePrompt of
        None \<Rightarrow> []
      | Some n \<Rightarrow>
          if n \<noteq> [] \<and> trim n \<noteq> []
          then js '' Ensure the image does not contain: '' @ n @ js ''.''
          else [])"

definition callGenerateImages ::
  "env \<Rightarrow> image_request \<Rightarrow> world \<Rightarrow> world \<times> (js_error + jsstring option)" where
  "callGenerateImages E req w = (emit (GenerateImages req) w, generateImages E (trace w) req)"

text \<open>
  The loop over the parts of the first candidate, and the check for a refusal in text.
\<close>

definition readImageParts :: "part list option \<Rightarrow> js_error + jsstring" where
  "readImageParts parts =
     (case parts of
        None \<Rightarrow> Inl (Error (js ''No image generated by Gemini (Response empty)''))
      | Some ps \<Rightarrow>
          (case find (\<lambda>p. case inlineData p of None \<Rightarrow> False | Some d \<Rightarrow> data d \<noteq> []) ps of
             Some p \<Rightarrow>
               Inr (js ''data:'' @ orElse (mimeType (the (inlineData p))) (js ''image/png'') @
                    js '';base64,'' @ data (the (inlineData p)))
           | None \<Rightarrow>
               (let textParts =
                      joinWith (js '' '') (map part_text (filter (\<lambda>p. part_text p \<noteq> []) ps))
                in if textParts \<noteq> []
                   then Inl (Error (js ''Model refused to generate image: '' @
                                    substring textParts 0 100 @ js ''...''))
                   else Inl (Error (js ''No image generated by Gemini (Response empty)'')))))"

text \<open>The \<^verbatim>\<open>try\<close> block of the closure.\<close>

definition imageTry ::
  "env \<Rightarrow> jsstring \<Rightarrow> jsstring \<Rightarrow> jsstring \<Rightarrow> world \<Rightarrow> world \<times> (js_error + jsstring)" where
  "imageTry E promptText key modelName w =
     (if js_includes (toLowerCase modelName) (js ''imagen'') then
        (case callGenerateImages E
                \<lparr> img_clientKey = key, img_model = modelName, img_prompt = promptText,
                  numberOfImages = 1, outputMimeType = js ''image/jpeg'',
                  img_aspectRatio = js ''1:1'' \<rparr> w of
           (w1, Inl e) \<Rightarrow> (w1, Inl e)
         | (w1, Inr b64) \<Rightarrow>
             (case b64 of
                None \<Rightarrow> (w1, Inl (Error (js ''No image data returned from Imagen.'')))
              | Some b \<Rightarrow>
                  if b \<noteq> [] then (w1, Inr (js ''data:image/jpeg;base64,'' @ b))
                  else (w1, Inl (Error (js ''No image data returned from Imagen.'')))))
      else
        (case callGenerateContent E
                \<lparr> clientKey = key, model = modelName,
                  contents = PartsContents [promptText],
                  config =
                    \<lparr> responseMimeType = None, responseSchema = None, cfg_temperature = None,
                      cfg_topP = None, maxOutputTokens = None,
                      safetySettings = SAFETY_SETTINGS \<rparr> \<rparr> w of
           (w1, Inl e) \<Rightarrow> (w1, Inl e)
         | (w1, Inr resp) \<Rightarrow> (w1, readImageParts (response_parts resp))))"

text \<open>
  \<^verbatim>\<open>new Error(`Image Generation Failed: ${e.message}`)\<close>: an absent message reads
  \<^verbatim>\<open>undefined\<close>.
\<close>

definition imageFailure :: "js_error \<Rightarrow> js_error" where
  "imageFailure e =
     Error (js ''Image Generation Failed: '' @
            (case message e of None \<Rightarrow> js ''undefined'' | Some m \<Rightarrow> m))"

text \<open>\<^verbatim>\<open>config.imageModel || "gemini-2.5-flash-image"\<close>.\<close>

definition imageModelName :: "ModelConfig \<Rightarrow> jsstring" where
  "imageModelName cfg =
     orElse (case imageModel cfg of None \<Rightarrow> [] | Some m \<Rightarrow> m) (js ''gemini-2.5-flash-image'')"

function imageAttempt ::
  "env \<Rightarrow> jsstring \<Rightarrow> ModelConfig \<Rightarrow> bool \<Rightarrow> world \<Rightarrow> world \<times> (js_error + jsstring)" where
  "imageAttempt E promptText cfg isRetry w =
     (case getGoogleClient (apiKey cfg) w of
        Inl e \<Rightarrow> (w, Inl e)
      | Inr key \<Rightarrow>
          (case imageTry E promptText key (imageModelName cfg) w of
             (w1, Inr uri) \<Rightarrow> (w1, Inr uri)
           | (w1, Inl e) \<Rightarrow>
               (case aistudio E of
                  Some a \<Rightarrow>
                    if \<not> isRetry \<and> isAuthError e then
                      (case callOpenSelectKey a w1 of
                         (w2, Inl e2) \<Rightarrow> (w2, Inl e2)
                       | (w2, Inr u) \<Rightarrow> imageAttempt E promptText cfg True w2)
                    else (w1, Inl (imageFailure e))
                | None \<Rightarrow> (w1, Inl (imageFailure e)))))"
  by pat_completeness auto
termination
  by (relation "measure (\<lambda>(E, promptText, cfg, isRetry, w). if isRetry then 0 else 1)") auto

declare imageAttempt.simps [simp del]

subsection \<open>The branch of the OpenAI images endpoint\<close>

text \<open>
  The condition of the branch; \<^verbatim>\<open>config.imageModel?.includes('dall-e')\<close> is
  \<^verbatim>\<open>undefined\<close> for an absent model.
\<close>

definition usesOpenAIImages :: "ModelConfig \<Rightarrow> bool" where
  "usesOpenAIImages cfg =
     (provider cfg = openai \<or>
      ((provider cfg = custom \<or> provider cfg = qwen \<or> provider cfg = volcengine) \<and>
       (case imageModel cfg of None \<Rightarrow> False | Some m \<Rightarrow> js_includes m (js ''dall-e''))))"

definition imagesRequest :: "ModelConfig \<Rightarrow> jsstring \<Rightarrow> http_request" where
  "imagesRequest cfg promptText =
     \<lparr> url = stripTrailingSlashes (baseUrl cfg) @ js ''/images/generations'',
       http_method = js ''POST'',
       headers = [(js ''Content-Type'', js ''application/json''),
                  (js ''Authorization'', js ''Bearer '' @ apiKey cfg)],
       body = Some (ImageBody
                \<lparr> image_model =
                    orElse (case imageModel cfg of None \<Rightarrow> [] | Some m \<Rightarrow> m) (js ''dall-e-3''),
                  image_prompt = promptText,
                  image_count = 1,
                  image_size = js ''1024x1024'',
                  image_response_format = js ''b64_json'' \<rparr>) \<rparr>"

text \<open>
  \<^verbatim>\<open>data.data?.[0]?.b64_json\<close> of the parsed response; reading a property of
  \<^verbatim>\<open>null\<close> throws.
\<close>

definition imageData :: "json \<Rightarrow> js_error + json option" where
  "imageData d =
     (if d = JNull then Inl (TypeError (js ''Cannot read properties of null''))
      else
        (let items = getProperty d (js ''data'');
             first = (if nullish items then None else getIndex0 (the items))
         in Inr (if nullish first then None else getProperty (the first) (js ''b64_json''))))"

text \<open>
  \<^verbatim>\<open>if (b64)\<close>: \<^verbatim>\<open>undefined\<close>, \<^verbatim>\<open>null\<close>, \<^verbatim>\<open>false\<close>, the number zero and the
  empty string are falsy.
\<close>

definition truthy :: "(jsstring \<Rightarrow> jsstring) \<Rightarrow> json option \<Rightarrow> bool" where
  "truthy numStr v =
     (case v of
        None \<Rightarrow> False
      | Some JNull \<Rightarrow> False
      | Some (JBool b) \<Rightarrow> b
      | Some (JNumber n) \<Rightarrow> numStr n \<noteq> js ''0''
      | Some (JString s) \<Rightarrow> s \<noteq> []
      | Some (JArray vs) \<Rightarrow> True
      | Some (JObject ms) \<Rightarrow> True)"

text \<open>
  A value in a template literal. A string is itself; an array is its elements joined
  with commas, where \<^verbatim>\<open>null\<close> gives the empty string; an object is
  \<^verbatim>\<open>[object Object]\<close>, unless it has a member \<^verbatim>\<open>toString\<close> of its own, which is
  not a function: then the conversion throws a TypeError.
\<close>

fun templateString :: "(jsstring \<Rightarrow> jsstring) \<Rightarrow> json \<Rightarrow> js_error + jsstring"
  and templateElements :: "(jsstring \<Rightarrow> jsstring) \<Rightarrow> json list \<Rightarrow> js_error + jsstring list" where
  "templateString numStr JNull = Inr (js ''null'')"
| "templateString numStr (JBool b) = Inr (if b then js ''true'' else js ''false'')"
| "templateString numStr (JNumber n) = Inr (numStr n)"
| "templateString numStr (JString s) = Inr s"
| "templateString numStr (JArray vs) =
     (case templateElements numStr vs of
        Inl e \<Rightarrow> Inl e
      | Inr ts \<Rightarrow> Inr (joinWith (js '','') ts))"
| "templateString numStr (JObject ms) =
     (if js ''toString'' \<in> fst ` set ms
      then Inl (TypeError (js ''Cannot convert object to primitive value''))
      else Inr (js ''[object Object]''))"
| "templateElements numStr [] = Inr []"
| "templateElements numStr (v # vs) =
     (case (if v = JNull then Inr [] else templateString numStr v) of
        Inl e \<Rightarrow> Inl e
      | Inr t \<Rightarrow>
          (case templateElements numStr vs of
             Inl e \<Rightarrow> Inl e
           | Inr ts \<Rightarrow> Inr (t # ts)))"

definition readImageData :: "env \<Rightarrow> json \<Rightarrow> js_error + jsstring" where
  "readImageData E d =
     (case imageData d of
        Inl e \<Rightarrow> Inl e
      | Inr b64 \<Rightarrow>
          if truthy (numberString E) b64 then
            (case templateString (numberString E) (the b64) of
               Inl e \<Rightarrow> Inl e
             | Inr t \<Rightarrow> Inr (js ''data:image/png;base64,'' @ t))
          else Inl (Error (js ''No image returned from OpenAI'')))"

definition generateAssetImageOpenAI ::
  "env \<Rightarrow> jsstring \<Rightarrow> ModelConfig \<Rightarrow> world \<Rightarrow> world \<times> (js_error + jsstring)" where
  "generateAssetImageOpenAI E promptText cfg w =
     (case callFetch E (imagesRequest cfg promptText) w of
        (w1, Inl e) \<Rightarrow> (w1, Inl e)
      | (w1, Inr res) \<Rightarrow>
          if \<not> ok res then
            (w1, Inl (Error (js ''OpenAI Image Gen failed: '' @ response_body res)))
          else
            (w1, case JSON_parse (response_body res) of
                   Inl e \<Rightarrow> Inl e
                 | Inr d \<Rightarrow> readImageData E d))"

subsection \<open>The fallback to the primary provider\<close>

text \<open>
  \<^verbatim>\<open>new GoogleGenAI({ apiKey: process.env.API_KEY })\<close>, in each run of
  \<open>attemptFallback\<close>: the client holds the process-level key of that moment. The first
  run has a key, by the test before it; in the second run the key is what the dialog
  left, and a client made without a key is taken as the client with the empty key.
\<close>

definition fallbackClientKey :: "world \<Rightarrow> jsstring" where
  "fallbackClientKey w = (case API_KEY w of None \<Rightarrow> [] | Some k \<Rightarrow> k)"

definition readFallbackParts :: "part list option \<Rightarrow> js_error + jsstring" where
  "readFallbackParts parts =
     (case parts of
        None \<Rightarrow> Inl (Error (js ''Fallback produced no image''))
      | Some ps \<Rightarrow>
          (case find (\<lambda>p. case inlineData p of None \<Rightarrow> False | Some d \<Rightarrow> data d \<noteq> []) ps of
             Some p \<Rightarrow>
               Inr (js ''data:'' @ orElse (mimeType (the (inlineData p))) (js ''image/png'') @
                    js '';base64,'' @ data (the (inlineData p)))
           | None \<Rightarrow> Inl (Error (js ''Fallback produced no image''))))"

text \<open>The \<^verbatim>\<open>try\<close> block of \<open>attemptFallback\<close>.\<close>

definition fallbackTry ::
  "env \<Rightarrow> jsstring \<Rightarrow> jsstring \<Rightarrow> world \<Rightarrow> world \<times> (js_error + jsstring)" where
  "fallbackTry E promptText key w =
     (case callGenerateContent E
             \<lparr> clientKey = key, model = js ''gemini-2.5-flash-image'',
               contents = PartsContents [promptText],
               config =
                 \<lparr> responseMimeType = None, responseSchema = None, cfg_temperature = None,
                   cfg_topP = None, maxOutputTokens = None,
                   safetySettings = SAFETY_SETTINGS \<rparr> \<rparr> w of
        (w1, Inl e) \<Rightarrow> (w1, Inl e)
      | (w1, Inr resp) \<Rightarrow> (w1, readFallbackParts (response_parts resp)))"

text \<open>
  \<open>attemptFallback\<close>: its \<^verbatim>\<open>catch\<close> asks for a key and runs \<open>attemptFallback(true)\<close>
  under the same condition as \<open>attempt\<close>, and otherwise throws the error it caught.
\<close>

function attemptFallback ::
  "env \<Rightarrow> jsstring \<Rightarrow> bool \<Rightarrow> world \<Rightarrow> world \<times> (js_error + jsstring)" where
  "attemptFallback E promptText isRetry w =
     (case fallbackTry E promptText (fallbackClientKey w) w of
        (w1, Inr uri) \<Rightarrow> (w1, Inr uri)
      | (w1, Inl e) \<Rightarrow>
          (case aistudio E of
             Some a \<Rightarrow>
               if \<not> isRetry \<and> isAuthError e then
                 (case callOpenSelectKey a w1 of
                    (w2, Inl e2) \<Rightarrow> (w2, Inl e2)
                  | (w2, Inr u) \<Rightarrow> attemptFallback E promptText True w2)
               else (w1, Inl e)
           | None \<Rightarrow> (w1, Inl e)))"
  by pat_completeness auto
termination
  by (relation "measure (\<lambda>(E, promptText, isRetry, w). if isRetry then 0 else 1)") auto

declare attemptFallback.simps [simp del]

subsection \<open>The three branches\<close>

definition generateAssetImage ::
  "env \<Rightarrow> jsstring \<Rightarrow> jsstring \<Rightarrow> jsstring option \<Rightarrow> ModelConfig \<Rightarrow> world \<Rightarrow>
     world \<times> (js_error + jsstring)" where
  "generateAssetImage E description ctx negativePrompt cfg w =
     (let promptText = imagePrompt description ctx negativePrompt
      in if provider cfg = google then imageAttempt E promptText cfg False w
         else if usesOpenAIImages cfg then generateAssetImageOpenAI E promptText cfg w
         else if API_KEY w \<noteq> None \<and> API_KEY w \<noteq> Some []
              then attemptFallback E promptText False w
              else (w, Inl (Error (js ''Selected provider does not support image generation and no fallback Google key available.''))))"

section \<open>Video generation\<close>

text \<open>
  \<^verbatim>\<open>referenceImageBase64.replace(/^data:image\/\w+;base64,/, "")\<close>: a data-URI prefix
  at the start of the text is dropped.
\<close>

definition isWordChar :: "nat \<Rightarrow> bool" where
  "isWordChar c = ((48 \<le> c \<and> c \<le> 57) \<or> (65 \<le> c \<and> c \<le> 90) \<or> c = 95 \<or> (97 \<le> c \<and> c \<le> 122))"

definition stripDataUriPrefix :: "jsstring \<Rightarrow> jsstring" where
  "stripDataUriPrefix s =
     (if prefix (js ''data:image/'') s then
        (let r = drop 11 s; word = takeWhile isWordChar r; r2 = dropWhile isWordChar r
         in if word \<noteq> [] \<and> prefix (js '';base64,'') r2 then drop 8 r2 else s)
      else s)"

definition callGenerateVideos ::
  "env \<Rightarrow> video_request \<Rightarrow> world \<Rightarrow> world \<times> (js_error + operation)" where
  "callGenerateVideos E req w = (emit (GenerateVideos req) w, generateVideos E (trace w) req)"

definition callGetVideosOperation ::
  "env \<Rightarrow> jsstring \<Rightarrow> operation \<Rightarrow> world \<Rightarrow> world \<times> (js_error + operation)" where
  "callGetVideosOperation E key opn w =
     (emit (GetVideosOperation key opn) w, getVideosOperation E (trace w) key opn)"

text \<open>
  The polling loop: while the operation is not done, wait five seconds and fetch its
  status again. The loop has no bound; a run that never ends is the value None.
\<close>

partial_function (option) pollOperation ::
  "env \<Rightarrow> jsstring \<Rightarrow> operation \<Rightarrow> world \<Rightarrow> (world \<times> (js_error + operation)) option" where
  "pollOperation E key opn w =
     (if op_done opn then Some (w, Inr opn)
      else
        (case callGetVideosOperation E key opn (emit (SetTimeout 5000) w) of
           (w1, Inl e) \<Rightarrow> Some (w1, Inl e)
         | (w1, Inr opn1) \<Rightarrow> pollOperation E key opn1 w1))"

definition missingVeoKey :: js_error where
  "missingVeoKey = Error (js ''Google API Key required for Veo video generation.'')"

text \<open>
  The key of an attempt (the lines before its \<^verbatim>\<open>try\<close>): the key of the
  configuration when there is a configuration, its provider is \<open>google\<close> and its key
  is not empty, and the process-level key otherwise; when that leaves no key and
  \<^verbatim>\<open>window.aistudio\<close> has \<^verbatim>\<open>hasSelectedApiKey\<close>, the dialog is opened and the
  process-level key is read again.
\<close>

definition veoKey ::
  "env \<Rightarrow> ModelConfig option \<Rightarrow> world \<Rightarrow> world \<times> (js_error + jsstring)" where
  "veoKey E cfg w =
     (let key0 =
            (case cfg of
               Some c \<Rightarrow> if provider c = google \<and> apiKey c \<noteq> [] then Some (apiKey c) else API_KEY w
             | None \<Rightarrow> API_KEY w);
          missing = Inl missingVeoKey
      in case aistudio E of
           Some a \<Rightarrow>
             if (key0 = None \<or> key0 = Some []) \<and> hasSelectedApiKey a then
               (case callOpenSelectKey a w of
                  (w1, Inl e) \<Rightarrow> (w1, Inl e)
                | (w1, Inr u) \<Rightarrow>
                    (w1, if API_KEY w1 = None \<or> API_KEY w1 = Some [] then missing
                         else Inr (the (API_KEY w1))))
             else (w, if key0 = None \<or> key0 = Some [] then missing else Inr (the key0))
         | None \<Rightarrow> (w, if key0 = None \<or> key0 = Some [] then missing else Inr (the key0)))"

definition videoRequest ::
  "jsstring \<Rightarrow> jsstring \<Rightarrow> jsstring \<Rightarrow> jsstring option \<Rightarrow> AspectRatio \<Rightarrow> video_request" where
  "videoRequest key modelName promptText referenceImageBase64 ratio =
     \<lparr> vid_clientKey = key,
       vid_model = modelName,
       vid_prompt = promptText,
       vid_image =
         (case referenceImageBase64 of
            None \<Rightarrow> None
          | Some img \<Rightarrow>
              if img \<noteq> []
              then Some \<lparr> imageBytes = stripDataUriPrefix img, vimg_mimeType = js ''image/png'' \<rparr>
              else None),
       numberOfVideos = 1,
       resolution = js ''720p'',
       aspectRatio = ratio \<rparr>"

text \<open>
  The \<^verbatim>\<open>try\<close> block of an attempt: submit, poll, read the URI, download.
\<close>

definition veoTry ::
  "env \<Rightarrow> jsstring \<Rightarrow> jsstring \<Rightarrow> jsstring \<Rightarrow> jsstring option \<Rightarrow> AspectRatio \<Rightarrow> world \<Rightarrow>
     (world \<times> (js_error + jsstring)) option" where
  "veoTry E key modelName promptText referenceImageBase64 ratio w =
     (case callGenerateVideos E
             (videoRequest key modelName promptText referenceImageBase64 ratio) w of
        (w1, Inl e) \<Rightarrow> Some (w1, Inl e)
      | (w1, Inr opn) \<Rightarrow>
          (case pollOperation E key opn w1 of
             None \<Rightarrow> None
           | Some (w2, Inl e) \<Rightarrow> Some (w2, Inl e)
           | Some (w2, Inr fin) \<Rightarrow>
               (case videoUri fin of
                  None \<Rightarrow> Some (w2, Inl (Error (js ''Video generation failed or no URI returned.'')))
                | Some uri \<Rightarrow>
                    if uri = []
                    then Some (w2, Inl (Error (js ''Video generation failed or no URI returned.'')))
                    else
                      (case callFetch E
                              \<lparr> url = uri @ js ''&key='' @ key, http_method = js ''GET'',
                                headers = [], body = None \<rparr> w2 of
                         (w3, Inl e) \<Rightarrow> Some (w3, Inl e)
                       | (w3, Inr res) \<Rightarrow> Some (w3, Inr (createObjectURL E (response_body res)))))))"

text \<open>\<^verbatim>\<open>config?.videoModel || 'veo-3.1-fast-generate-preview'\<close>.\<close>

definition veoModelName :: "ModelConfig option \<Rightarrow> jsstring" where
  "veoModelName cfg =
     orElse (case cfg of
               None \<Rightarrow> []
             | Some c \<Rightarrow> (case videoModel c of None \<Rightarrow> [] | Some m \<Rightarrow> m))
       (js ''veo-3.1-fast-generate-preview'')"

function veoAttempt ::
  "env \<Rightarrow> jsstring \<Rightarrow> jsstring option \<Rightarrow> AspectRatio \<Rightarrow> ModelConfig option \<Rightarrow> bool \<Rightarrow> world \<Rightarrow>
     (world \<times> (js_error + jsstring)) option" where
  "veoAttempt E promptText referenceImageBase64 ratio cfg isRetry w =
     (case veoKey E cfg w of
        (w0, Inl e) \<Rightarrow> Some (w0, Inl e)
      | (w0, Inr key) \<Rightarrow>
          (case veoTry E key (veoModelName cfg) promptText referenceImageBase64 ratio w0 of
             None \<Rightarrow> None
           | Some (w1, Inr handle) \<Rightarrow> Some (w1, Inr handle)
           | Some (w1, Inl e) \<Rightarrow>
               (case aistudio E of
                  Some a \<Rightarrow>
                    if \<not> isRetry \<and> isAuthError e then
                      (case callOpenSelectKey a w1 of
                         (w2, Inl e2) \<Rightarrow> Some (w2, Inl e2)
                       | (w2, Inr u) \<Rightarrow>
                           veoAttempt E promptText referenceImageBase64 ratio cfg True w2)
                    else Some (w1, Inl e)
                | None \<Rightarrow> Some (w1, Inl e))))"
  by pat_completeness auto
termination
  by (relation "measure (\<lambda>(E, promptText, referenceImageBase64, ratio, cfg, isRetry, w).
        if isRetry then 0 else 1)") auto

declare veoAttempt.simps [simp del]

definition generateVeoVideo ::
  "env \<Rightarrow> jsstring \<Rightarrow> jsstring option \<Rightarrow> AspectRatio \<Rightarrow> ModelConfig option \<Rightarrow> world \<Rightarrow>
     (world \<times> (js_error + jsstring)) option" where
  "generateVeoVideo E promptText referenceImageBase64 ratio cfg w =
     veoAttempt E promptText referenceImageBase64 ratio cfg False w"

section \<open>Reading a trace\<close>

text \<open>
  The events a call added to the trace, and counts of them: requests to
  \<^verbatim>\<open>generateContent\<close>, those with a response schema (the strict requests), and
  invocations of \<^verbatim>\<open>openSelectKey\<close>.
\<close>

definition since :: "world \<Rightarrow> world \<Rightarrow> event list" where
  "since w w' = drop (length (trace w)) (trace w')"

definition isGenerateContent :: "event \<Rightarrow> bool" where
  "isGenerateContent ev = (case ev of GenerateContent r \<Rightarrow> True | _ \<Rightarrow> False)"

definition isStrictRequest :: "event \<Rightarrow> bool" where
  "isStrictRequest ev =
     (case ev of GenerateContent r \<Rightarrow> responseSchema (config r) \<noteq> None | _ \<Rightarrow> False)"

definition isOpenSelectKey :: "event \<Rightarrow> bool" where
  "isOpenSelectKey ev = (case ev of OpenSelectKey \<Rightarrow> True | _ \<Rightarrow> False)"

definition countEvents :: "(event \<Rightarrow> bool) \<Rightarrow> event list \<Rightarrow> nat" where
  "countEvents P evs = length (filter P evs)"

text \<open>
  The condition under which \<open>generateVeoVideo\<close> takes the key of the configuration.
\<close>

definition usesConfigKey :: "ModelConfig option \<Rightarrow> bool" where
  "usesConfigKey cfg =
     (case cfg of None \<Rightarrow> False | Some c \<Rightarrow> provider c = google \<and> apiKey c \<noteq> [])"

text \<open>
  The requests of a video attempt that carry a key: the submission and each status
  request are made by the client of that key, and the download has the key at the end
  of its address. Waiting carries none.
\<close>

definition madeWithKey :: "jsstring \<Rightarrow> event \<Rightarrow> bool" where
  "madeWithKey key ev =
     (case ev of
        GenerateVideos r \<Rightarrow> vid_clientKey r = key
      | GetVideosOperation k opn \<Rightarrow> k = key
      | Fetch r \<Rightarrow> suffix (js ''&key='' @ key) (url r)
      | SetTimeout n \<Rightarrow> True
      | _ \<Rightarrow> False)"

section \<open>Scripted environments\<close>

text \<open>
  Environments for the concrete instances below. Each kind of request is answered from
  a script: the n-th request of a kind gets the n-th answer, and a request beyond the
  script is rejected. A number is printed as it is written.
\<close>

definition unscripted :: js_error where
  "unscripted = Error (js ''no answer scripted'')"

definition answer :: "(js_error + 'a) list \<Rightarrow> nat \<Rightarrow> js_error + 'a" where
  "answer script n = (if n < length script then script ! n else Inl unscripted)"

definition isGenerateVideos :: "event \<Rightarrow> bool" where
  "isGenerateVideos ev = (case ev of GenerateVideos r \<Rightarrow> True | _ \<Rightarrow> False)"

definition isGetVideosOperation :: "event \<Rightarrow> bool" where
  "isGetVideosOperation ev = (case ev of GetVideosOperation k opn \<Rightarrow> True | _ \<Rightarrow> False)"

definition isFetch :: "event \<Rightarrow> bool" where
  "isFetch ev = (case ev of Fetch r \<Rightarrow> True | _ \<Rightarrow> False)"

definition scriptedEnv ::
  "(js_error + gen_response) list \<Rightarrow> (js_error + operation) list \<Rightarrow>
   (js_error + operation) list \<Rightarrow> (js_error + http_response) list \<Rightarrow> AIStudio option \<Rightarrow> env" where
  "scriptedEnv contentScript videoScript pollScript fetchScript studio =
     \<lparr> generateContent = (\<lambda>h r. answer contentScript (countEvents isGenerateContent h)),
       generateImages = (\<lambda>h r. Inl unscripted),
       generateVideos = (\<lambda>h r. answer videoScript (countEvents isGenerateVideos h)),
       getVideosOperation = (\<lambda>h k opn. answer pollScript (countEvents isGetVideosOperation h)),
       fetch = (\<lambda>h r. answer fetchScript (countEvents isFetch h)),
       createObjectURL = (\<lambda>blob. js ''blob:video''),
       numberString = (\<lambda>n. n),
       aistudio = studio \<rparr>"

text \<open>A key dialog that always resolves and leaves the given process-level key.\<close>

definition studioWith :: "jsstring \<Rightarrow> AIStudio" where
  "studioWith k = \<lparr> hasSelectedApiKey = True, openSelectKey = (\<lambda>h. Inr (Some k)) \<rparr>"

definition googleConfig :: ModelConfig where
  "googleConfig =
     \<lparr> provider = google, apiKey = js ''key-1'', baseUrl = [], textModel = [],
       imageModel = None, videoModel = None,
       inferenceConfig = Some \<lparr> temperature = 0.7, topP = 0.9, maxTokens = 8192 \<rparr> \<rparr>"

definition openaiConfig :: ModelConfig where
  "openaiConfig =
     \<lparr> provider = openai, apiKey = js ''sk-test'', baseUrl = js ''https://api.openai.com/v1/'',
       textModel = js ''gpt-4o'', imageModel = None, videoModel = None,
       inferenceConfig = None \<rparr>"

definition ollamaConfig :: ModelConfig where
  "ollamaConfig =
     \<lparr> provider = ollama, apiKey = [], baseUrl = js ''http://localhost:11434/v1'',
       textModel = js ''llama3'', imageModel = None, videoModel = None,
       inferenceConfig = None \<rparr>"

definition startWorld :: world where
  "startWorld = \<lparr> API_KEY = None, trace = [] \<rparr>"

definition notFoundError :: js_error where
  "notFoundError = Error (js ''Requested entity was not found.'')"

definition rateLimitError :: js_error where
  "rateLimitError = Error (js ''rate limit exceeded'')"

definition textResponse :: "jsstring \<Rightarrow> gen_response" where
  "textResponse t = \<lparr> response_text = Some t, response_parts = None \<rparr>"

text \<open>
  A video environment: the first submission yields a job that is not done, the first
  poll is rejected with an auth-class error, the second submission yields a finished
  job, and the download succeeds.
\<close>

definition pollingEnv :: env where
  "pollingEnv =
     scriptedEnv []
       [Inr \<lparr> op_done = False, videoUri = None \<rparr>,
        Inr \<lparr> op_done = True, videoUri = Some (js ''https://video.example/1?alt=media'') \<rparr>]
       [Inl notFoundError]
       [Inr \<lparr> http_status = 200, response_body = js ''bytes'' \<rparr>]
       (Some (studioWith (js ''key-2'')))"

text \<open>
  A video environment without \<^verbatim>\<open>window.aistudio\<close>: the submission yields a finished
  job, and the download succeeds.
\<close>

definition readyVideoEnv :: env where
  "readyVideoEnv =
     scriptedEnv []
       [Inr \<lparr> op_done = True, videoUri = Some (js ''https://video.example/1?alt=media'') \<rparr>]
       []
       [Inr \<lparr> http_status = 200, response_body = js ''bytes'' \<rparr>]
       None"

text \<open>A polish response, as a document.\<close>

definition polishDocument :: json where
  "polishDocument = JObject [(js ''critique'', JString (js ''ok'')),
                             (js ''rewritten_story'', JString (js ''Once.'')),
                             (js ''changes_made'', JArray [])]"

section \<open>Facts about strings\<close>

lemma js_includes_sublist: "js_includes hay needle = sublist needle hay"
  by (induction hay) (simp_all add: sublist_Cons_right)

lemma js_includes_iff:
  "js_includes hay needle \<longleftrightarrow> (\<exists>pre post. hay = pre @ needle @ post)"
  by (simp add: js_includes_sublist sublist_def)

lemma toLowerCase_append: "toLowerCase (a @ b) = toLowerCase a @ toLowerCase b"
  by (simp add: toLowerCase_def)

lemma js_includes_toLowerCase:
  assumes "t = pre @ x @ post"
  shows "js_includes (toLowerCase t) (toLowerCase x)"
  unfolding js_includes_iff assms toLowerCase_append by blast

section \<open>The auth-class classifier\<close>

text \<open>
  C3, as the code has it. An error is auth-class when its text (the message, or the
  result of toString for an absent or empty message) contains, in any letter case, the
  phrase "requested entity was not found", or contains "404", or when its status field
  is the string "NOT_FOUND", or when its code field is the number 404. An error made
  from the message "rate limit exceeded" is not auth-class.
\<close>

theorem isAuthError_classification:
  "((\<exists>pre x post. errorText e = pre @ x @ post \<and>
        toLowerCase x = js ''requested entity was not found'') \<longrightarrow> isAuthError e) \<and>
   ((\<exists>pre post. errorText e = pre @ js ''404'' @ post) \<longrightarrow> isAuthError e) \<and>
   (status e = JSString (js ''NOT_FOUND'') \<longrightarrow> isAuthError e) \<and>
   (code e = JSNumber 404 \<longrightarrow> isAuthError e) \<and>
   \<not> isAuthError (Error (js ''rate limit exceeded''))"
proof (intro conjI impI)
  assume "\<exists>pre x post. errorText e = pre @ x @ post \<and>
      toLowerCase x = js ''requested entity was not found''"
  then obtain pre x post where t: "errorText e = pre @ x @ post"
    and x: "toLowerCase x = js ''requested entity was not found''" by blast
  from js_includes_toLowerCase [OF t] x
  show "isAuthError e" by (simp add: isAuthError_def Let_def)
next
  assume "\<exists>pre post. errorText e = pre @ js ''404'' @ post"
  then obtain pre post where t: "errorText e = pre @ js ''404'' @ post" by blast
  have "toLowerCase (js ''404'') = js ''404''"
    by (simp add: toLowerCase_def lowerUnit_def js_def)
  with js_includes_toLowerCase [OF t]
  show "isAuthError e" by (simp add: isAuthError_def Let_def)
next
  assume "status e = JSString (js ''NOT_FOUND'')"
  then show "isAuthError e" by (simp add: isAuthError_def Let_def)
next
  assume "code e = JSNumber 404"
  then show "isAuthError e" by (simp add: isAuthError_def Let_def)
next
  show "\<not> isAuthError (Error (js ''rate limit exceeded''))"
    by (simp add: isAuthError_def Error_def errorText_def toLowerCase_def lowerUnit_def js_def)
qed

text \<open>
  The theorem at concrete errors: the phrase in capitals inside a longer message, a
  message with 404 in it, and the two structured fields.
\<close>

theorem isAuthError_classification_witness:
  "isAuthError (Error (js ''[Gemini] Requested Entity Was NOT Found.'')) \<and>
   isAuthError (Error (js ''HTTP 404 from upstream'')) \<and>
   isAuthError \<lparr> message = Some (js ''denied''), toStringResult = js ''Error: denied'',
                 status = JSString (js ''NOT_FOUND''), code = JSUndefined \<rparr> \<and>
   isAuthError \<lparr> message = None, toStringResult = js ''[object Object]'',
                 status = JSUndefined, code = JSNumber 404 \<rparr> \<and>
   \<not> isAuthError (Error (js ''rate limit exceeded''))"
proof -
  have a: "\<exists>pre x post. errorText (Error (js ''[Gemini] Requested Entity Was NOT Found.''))
             = pre @ x @ post \<and> toLowerCase x = js ''requested entity was not found''"
    by (rule exI [of _ "js ''[Gemini] ''"], rule exI [of _ "js ''Requested Entity Was NOT Found''"],
        rule exI [of _ "js ''.''"])
       (simp add: Error_def errorText_def toLowerCase_def lowerUnit_def js_def)
  have b: "\<exists>pre post. errorText (Error (js ''HTTP 404 from upstream''))
             = pre @ js ''404'' @ post"
    by (rule exI [of _ "js ''HTTP ''"], rule exI [of _ "js '' from upstream''"])
       (simp add: Error_def errorText_def js_def)
  show ?thesis
    using isAuthError_classification [of "Error (js ''[Gemini] Requested Entity Was NOT Found.'')"]
      isAuthError_classification [of "Error (js ''HTTP 404 from upstream'')"]
      isAuthError_classification [of "\<lparr> message = Some (js ''denied''),
        toStringResult = js ''Error: denied'', status = JSString (js ''NOT_FOUND''),
        code = JSUndefined \<rparr>"]
      isAuthError_classification [of "\<lparr> message = None,
        toStringResult = js ''[object Object]'', status = JSUndefined, code = JSNumber 404 \<rparr>"]
      a b
    by simp
qed

text \<open>
  The claim as the specification words it fails twice: a message that contains
  "not found" without the full phrase is not auth-class, and neither is an error whose
  status field is the number 404.
\<close>

theorem isAuthError_not_found_counterexample:
  "js_includes (toLowerCase (errorText (Error (js ''Model Not Found'')))) (js ''not found'') \<and>
   \<not> isAuthError (Error (js ''Model Not Found'')) \<and>
   \<not> isAuthError \<lparr> message = Some (js ''denied''), toStringResult = js ''Error: denied'',
                   status = JSNumber 404, code = JSUndefined \<rparr>"
  by (simp add: isAuthError_def Error_def errorText_def toLowerCase_def lowerUnit_def js_def)

section \<open>The JSON parser consumes its input\<close>

lemma parseStringBody_rest:
  "parseStringBody s = Some (k, r) \<Longrightarrow> \<exists>pre. s = pre @ r \<and> pre \<noteq> []"
proof (induction s arbitrary: k r rule: parseStringBody.induct)
  case 1
  then show ?case by simp
next
  case (2 c cs)
  show ?case
  proof (cases "c = 34")
    case True
    with "2.prems" show ?thesis by auto
  next
    case c34: False
    show ?thesis
    proof (cases "c = 92")
      case True
      show ?thesis
      proof (cases cs)
        case Nil
        with "2.prems" c34 True show ?thesis by simp
      next
        case (Cons e t)
        show ?thesis
        proof (cases "e = 117")
          case e: True
          from "2.prems" c34 True Cons e obtain n k' where
            h: "hex4 t = Some n" and p: "parseStringBody (drop 4 t) = Some (k', r)"
            by (auto simp: consChar_def split: option.splits)
          from "2.IH"(1) [OF c34 True Cons e h p]
          obtain pre where "drop 4 t = pre @ r" by blast
          then have "t = take 4 t @ pre @ r" by (metis append_take_drop_id)
          then have "c # cs = (c # e # take 4 t @ pre) @ r" using Cons by simp
          then show ?thesis by blast
        next
          case e: False
          from "2.prems" c34 True Cons e obtain u k' where
            h: "unescape e = Some u" and p: "parseStringBody t = Some (k', r)"
            by (auto simp: consChar_def split: option.splits)
          from "2.IH"(2) [OF c34 True Cons e h p]
          obtain pre where "t = pre @ r" by blast
          then have "c # cs = (c # e # pre) @ r" using Cons by simp
          then show ?thesis by blast
        qed
      qed
    next
      case c92: False
      from "2.prems" c34 c92 obtain k' where
        lt: "\<not> c < 32" and p: "parseStringBody cs = Some (k', r)"
        by (auto simp: consChar_def split: option.splits if_splits)
      from "2.IH"(3) [OF c34 c92 lt p] obtain pre where "cs = pre @ r" by blast
      then have "c # cs = (c # pre) @ r" by simp
      then show ?thesis by blast
    qed
  qed
qed

lemma parseInt_rest: "parseInt s = Some (l, r) \<Longrightarrow> s = l @ r \<and> l \<noteq> []"
  unfolding parseInt_def by (auto split: list.splits if_splits)

lemma parseFrac_rest: "parseFrac s = Some (l, r) \<Longrightarrow> s = l @ r"
  unfolding parseFrac_def by (auto split: list.splits if_splits)

lemma parseExp_rest: "parseExp s = Some (l, r) \<Longrightarrow> s = l @ r"
proof (cases s)
  case Nil
  assume "parseExp s = Some (l, r)"
  with Nil show ?thesis by (simp add: parseExp_def)
next
  case (Cons c cs)
  assume p: "parseExp s = Some (l, r)"
  show ?thesis
  proof (cases "c = 101 \<or> c = 69")
    case False
    with p Cons show ?thesis by (auto simp: parseExp_def)
  next
    case True
    obtain sign where sign: "sign = (case cs of d # _ \<Rightarrow> if d = 43 \<or> d = 45 then [d] else [] | [] \<Rightarrow> [])"
      by blast
    have tk: "take (length sign) cs = sign"
      unfolding sign by (auto split: list.splits)
    from p Cons True have l: "l = c # sign @ takeWhile isDigit (drop (length sign) cs)"
      and r: "r = dropWhile isDigit (drop (length sign) cs)"
      unfolding parseExp_def Let_def sign
      by (auto split: if_splits)
    have "cs = take (length sign) cs @ drop (length sign) cs" by simp
    also have "\<dots> = sign @ takeWhile isDigit (drop (length sign) cs)
                      @ dropWhile isDigit (drop (length sign) cs)"
      by (simp add: tk)
    finally show ?thesis using l r Cons by simp
  qed
qed

lemma parseNumber_rest:
  assumes "parseNumber s = Some (l, r)"
  shows "s = l @ r \<and> l \<noteq> []"
proof -
  obtain sign where sign: "sign = (case s of c # _ \<Rightarrow> if c = 45 then [c] else [] | [] \<Rightarrow> [])"
    by blast
  have tk: "take (length sign) s = sign"
    unfolding sign by (auto split: list.splits)
  from assms obtain i r1 f r2 e where
    pi: "parseInt (drop (length sign) s) = Some (i, r1)" and
    pf: "parseFrac r1 = Some (f, r2)" and
    pe: "parseExp r2 = Some (e, r)" and
    l: "l = sign @ i @ f @ e"
    unfolding parseNumber_def Let_def sign
    by (auto split: option.splits)
  from parseInt_rest [OF pi] parseFrac_rest [OF pf] parseExp_rest [OF pe]
  have d: "drop (length sign) s = i @ f @ e @ r" and i: "i \<noteq> []" by auto
  have "s = take (length sign) s @ drop (length sign) s" by simp
  with d tk l i show ?thesis by simp
qed

lemma skipWs_decomp: "skipWs s = c # cs \<Longrightarrow> \<exists>w. s = w @ c # cs"
  unfolding skipWs_def by (metis takeWhile_dropWhile_id)

lemma drop_rest: "s \<noteq> [] \<Longrightarrow> 0 < n \<Longrightarrow> \<exists>pre. s = pre @ drop n s \<and> pre \<noteq> []"
  by (rule exI [of _ "take n s"]) simp

lemma valueRest_step:
  assumes IH: "\<And>t. length t < length s \<Longrightarrow> elementsRest t \<and> membersRest t"
  shows "valueRest s"
  unfolding valueRest_def
proof (intro allI impI)
  fix v r
  assume p: "parseValue s = Some (v, r)"
  from p obtain c cs where sk: "skipWs s = c # cs"
    by (cases "skipWs s") (auto simp: parseValue.simps [of s])
  from skipWs_decomp [OF sk] obtain w where s: "s = w @ c # cs" by blast
  then have len: "length cs < length s" by simp
  note ps = p [unfolded parseValue.simps [of s] sk, simplified]
  consider (obj) "c = 123" | (arr) "c \<noteq> 123" "c = 91" | (str) "c \<noteq> 123" "c \<noteq> 91" "c = 34"
    | (other) "c \<noteq> 123" "c \<noteq> 91" "c \<noteq> 34" by blast
  then show "(\<exists>pre. s = pre @ r \<and> pre \<noteq> []) \<and>
        (\<forall>ms. v = JObject ms \<longrightarrow> (\<exists>a b. s = a @ 123 # b @ 125 # r)) \<and>
        (\<forall>vs. v = JArray vs \<longrightarrow> (\<exists>a b. s = a @ 91 # b @ 93 # r))"
  proof cases
    case obj
    from ps obj obtain d r0 where sk2: "skipWs cs = d # r0"
      by (cases "skipWs cs") auto
    have "\<exists>b. cs = b @ 125 # r"
    proof (cases "d = 125")
      case True
      with ps obj sk2 have "r = r0" by simp
      with skipWs_decomp [OF sk2] True show ?thesis by blast
    next
      case False
      with ps obj sk2 obtain ms where "parseMembers cs = Some (ms, r)"
        by (auto split: option.splits)
      with IH [OF len] show ?thesis by (auto simp: membersRest_def)
    qed
    then obtain b where cs: "cs = b @ 125 # r" by blast
    have v: "\<exists>ms. v = JObject ms" using ps obj sk2 by (auto split: option.splits if_splits)
    have "s = (w @ 123 # b @ [125]) @ r" using s cs obj by simp
    moreover have "s = w @ 123 # b @ 125 # r" using s cs obj by simp
    ultimately show ?thesis using v by blast
  next
    case arr
    from ps arr obtain d r0 where sk2: "skipWs cs = d # r0"
      by (cases "skipWs cs") auto
    have "\<exists>b. cs = b @ 93 # r"
    proof (cases "d = 93")
      case True
      with ps arr sk2 have "r = r0" by simp
      with skipWs_decomp [OF sk2] True show ?thesis by blast
    next
      case False
      with ps arr sk2 obtain vs where "parseElements cs = Some (vs, r)"
        by (auto split: option.splits)
      with IH [OF len] show ?thesis by (auto simp: elementsRest_def)
    qed
    then obtain b where cs: "cs = b @ 93 # r" by blast
    have v: "\<exists>vs. v = JArray vs" using ps arr sk2 by (auto split: option.splits if_splits)
    have "s = (w @ 91 # b @ [93]) @ r" using s cs arr by simp
    moreover have "s = w @ 91 # b @ 93 # r" using s cs arr by simp
    ultimately show ?thesis using v by blast
  next
    case str
    from ps str obtain k where pk: "parseStringBody cs = Some (k, r)" and v: "v = JString k"
      by (auto split: option.splits)
    from parseStringBody_rest [OF pk] obtain pre where "cs = pre @ r" by blast
    then have "s = (w @ c # pre) @ r" using s by simp
    then show ?thesis using v by blast
  next
    case other
    have "(\<exists>pre. c # cs = pre @ r \<and> pre \<noteq> []) \<and> (\<forall>ms. v \<noteq> JObject ms) \<and> (\<forall>vs. v \<noteq> JArray vs)"
    proof -
      consider (t) "prefix (js ''true'') (c # cs)"
        | (f) "\<not> prefix (js ''true'') (c # cs)" "prefix (js ''false'') (c # cs)"
        | (n) "\<not> prefix (js ''true'') (c # cs)" "\<not> prefix (js ''false'') (c # cs)"
              "prefix (js ''null'') (c # cs)"
        | (num) "\<not> prefix (js ''true'') (c # cs)" "\<not> prefix (js ''false'') (c # cs)"
              "\<not> prefix (js ''null'') (c # cs)" by blast
      then show ?thesis
      proof cases
        case t
        with ps other have v: "v = JBool True" and r: "r = drop 4 (c # cs)" by auto
        from drop_rest [of "c # cs" 4] obtain pre where
          "c # cs = pre @ drop 4 (c # cs)" "pre \<noteq> []" by auto
        with v r show ?thesis by blast
      next
        case f
        with ps other have v: "v = JBool False" and r: "r = drop 5 (c # cs)" by auto
        from drop_rest [of "c # cs" 5] obtain pre where
          "c # cs = pre @ drop 5 (c # cs)" "pre \<noteq> []" by auto
        with v r show ?thesis by blast
      next
        case n
        with ps other have v: "v = JNull" and r: "r = drop 4 (c # cs)" by auto
        from drop_rest [of "c # cs" 4] obtain pre where
          "c # cs = pre @ drop 4 (c # cs)" "pre \<noteq> []" by auto
        with v r show ?thesis by blast
      next
        case num
        with ps other obtain l where "parseNumber (c # cs) = Some (l, r)" "v = JNumber l"
          by (auto split: option.splits)
        with parseNumber_rest show ?thesis by blast
      qed
    qed
    then obtain pre where "c # cs = pre @ r" "pre \<noteq> []" and nv: "(\<forall>ms. v \<noteq> JObject ms) \<and> (\<forall>vs. v \<noteq> JArray vs)"
      by blast
    then have "s = (w @ pre) @ r" "w @ pre \<noteq> []" using s by simp_all
    then show ?thesis using nv by blast
  qed
qed

lemma elementsRest_step:
  assumes V: "valueRest s"
    and IH: "\<And>t. length t < length s \<Longrightarrow> elementsRest t"
  shows "elementsRest s"
  unfolding elementsRest_def
proof (intro allI impI)
  fix vs r
  assume p: "parseElements s = Some (vs, r)"
  from p obtain v r0 where pv: "parseValue s = Some (v, r0)"
    by (cases "parseValue s") (auto simp: parseElements.simps [of s])
  from V pv obtain pre where s: "s = pre @ r0" "pre \<noteq> []" by (auto simp: valueRest_def)
  from p pv obtain c r' where sk: "skipWs r0 = c # r'"
    by (cases "skipWs r0") (auto simp: parseElements.simps [of s])
  from skipWs_decomp [OF sk] obtain w where r0: "r0 = w @ c # r'" by blast
  note ps = p [unfolded parseElements.simps [of s] pv, simplified, unfolded sk, simplified]
  show "\<exists>pre. s = pre @ 93 # r"
  proof (cases "c = 93")
    case True
    with ps have "r = r'" by simp
    with s r0 True have "s = (pre @ w) @ 93 # r" by simp
    then show ?thesis by blast
  next
    case False
    with ps obtain vs' where c: "c = 44" and lt: "length r' < length s"
      and pe: "parseElements r' = Some (vs', r)"
      by (auto split: if_splits option.splits)
    from IH [OF lt] pe obtain pre' where "r' = pre' @ 93 # r" by (auto simp: elementsRest_def)
    with s r0 have "s = (pre @ w @ c # pre') @ 93 # r" by simp
    then show ?thesis by blast
  qed
qed

lemma membersRest_step:
  assumes IHV: "\<And>t. length t < length s \<Longrightarrow> valueRest t"
    and IH: "\<And>t. length t < length s \<Longrightarrow> membersRest t"
  shows "membersRest s"
  unfolding membersRest_def
proof (intro allI impI)
  fix ms r
  assume p: "parseMembers s = Some (ms, r)"
  note unf = parseMembers.simps [of s]
  from p obtain c cs where sk: "skipWs s = c # cs"
    by (cases "skipWs s") (auto simp: unf)
  from skipWs_decomp [OF sk] obtain w where s: "s = w @ c # cs" by blast
  from p sk obtain k r0 where c: "c = 34" and pk: "parseStringBody cs = Some (k, r0)"
    by (auto simp: unf split: if_splits option.splits)
  from parseStringBody_rest [OF pk] obtain pre0 where cs: "cs = pre0 @ r0" by blast
  from p sk c pk obtain d r1 where sk1: "skipWs r0 = d # r1"
    by (cases "skipWs r0") (auto simp: unf)
  from skipWs_decomp [OF sk1] obtain w1 where r0: "r0 = w1 @ d # r1" by blast
  from p sk c pk sk1 obtain v r2 where lt1: "length r1 < length s"
    and pv: "parseValue r1 = Some (v, r2)"
    by (auto simp: unf split: if_splits option.splits)
  from IHV [OF lt1] pv obtain pre2 where r1: "r1 = pre2 @ r2" by (auto simp: valueRest_def)
  from p sk c pk sk1 lt1 pv obtain e r3 where sk3: "skipWs r2 = e # r3"
    by (cases "skipWs r2") (auto simp: unf split: if_splits)
  from skipWs_decomp [OF sk3] obtain w3 where r2: "r2 = w3 @ e # r3" by blast
  have all: "s = (w @ c # pre0 @ w1 @ d # pre2 @ w3) @ e # r3"
    using s cs r0 r1 r2 by simp
  show "\<exists>pre. s = pre @ 125 # r"
  proof (cases "e = 125")
    case True
    with p sk c pk sk1 lt1 pv sk3 have "r = r3" by (auto simp: unf split: if_splits)
    with all True show ?thesis by blast
  next
    case False
    with p sk c pk sk1 lt1 pv sk3 obtain ms' where e: "e = 44" and lt: "length r3 < length s"
      and pm: "parseMembers r3 = Some (ms', r)"
      by (auto simp: unf split: if_splits option.splits)
    from IH [OF lt] pm obtain pre' where "r3 = pre' @ 125 # r" by (auto simp: membersRest_def)
    with all have "s = (w @ c # pre0 @ w1 @ d # pre2 @ w3 @ e # pre') @ 125 # r" by simp
    then show ?thesis by blast
  qed
qed

lemma parsers_rest: "valueRest s \<and> elementsRest s \<and> membersRest s"
proof (induction s rule: length_induct)
  case (1 s)
  then have ih: "\<And>t. length t < length s \<Longrightarrow> valueRest t \<and> elementsRest t \<and> membersRest t"
    by simp
  have v: "valueRest s" by (rule valueRest_step) (simp add: ih)
  have e: "elementsRest s" by (rule elementsRest_step [OF v]) (simp add: ih)
  have m: "membersRest s" by (rule membersRest_step) (simp_all add: ih)
  from v e m show ?case by simp
qed

lemma parseValue_rest:
  "parseValue s = Some (v, r) \<Longrightarrow> \<exists>pre. s = pre @ r \<and> pre \<noteq> []"
  using parsers_rest [of s] by (simp add: valueRest_def)

lemma parseValue_shorter: "parseValue s = Some (v, r) \<Longrightarrow> length r < length s"
  using parseValue_rest [of s v r] by auto

lemma parseValue_object_span:
  "parseValue s = Some (JObject ms, r) \<Longrightarrow> \<exists>a b. s = a @ 123 # b @ 125 # r"
  using parsers_rest [of s] by (simp add: valueRest_def)

lemma parseValue_array_span:
  "parseValue s = Some (JArray vs, r) \<Longrightarrow> \<exists>a b. s = a @ 91 # b @ 93 # r"
  using parsers_rest [of s] by (simp add: valueRest_def)

text \<open>The length checks of the nested parsers never fail.\<close>

lemma parseElements_unguarded:
  "parseElements s =
     (case parseValue s of
        None \<Rightarrow> None
      | Some (v, r) \<Rightarrow>
          (case skipWs r of
             [] \<Rightarrow> None
           | c # r' \<Rightarrow>
               if c = 93 then Some ([v], r')
               else if c = 44 then
                 (case parseElements r' of
                    None \<Rightarrow> None
                  | Some (vs, r'') \<Rightarrow> Some (v # vs, r''))
               else None))"
proof (cases "parseValue s")
  case None
  then show ?thesis by (simp add: parseElements.simps [of s])
next
  case (Some a)
  obtain v r where a: "a = (v, r)" by (cases a)
  from parseValue_shorter Some a have lt: "length r < length s" by simp
  show ?thesis
  proof (cases "skipWs r")
    case Nil
    with Some a show ?thesis by (simp add: parseElements.simps [of s])
  next
    case (Cons c r')
    from skipWs_decomp [OF Cons] lt have "length r' < length s" by auto
    with Some a Cons show ?thesis by (simp add: parseElements.simps [of s])
  qed
qed

section \<open>Facts about the steps of the extractor\<close>

lemma findFence_decomp:
  "findFence t = Some (b, a) \<Longrightarrow> t = b @ js ''```'' @ a"
proof (induction t arbitrary: b)
  case Nil
  then show ?case by simp
next
  case (Cons c cs)
  show ?case
  proof (cases "prefix (js ''```'') (c # cs)")
    case True
    with Cons.prems have b: "b = []" and a: "a = drop 3 (c # cs)" by auto
    from True obtain z where "c # cs = js ''```'' @ z" by (auto simp: prefix_def)
    then have "c # cs = js ''```'' @ drop 3 (c # cs)" by (simp add: js_def)
    with a b show ?thesis by simp
  next
    case False
    with Cons.prems obtain b' where f: "findFence cs = Some (b', a)" and b: "b = c # b'"
      by (auto split: option.splits)
    from Cons.IH [OF f] b show ?thesis by simp
  qed
qed

lemma trimEnd_decomp: "s = trimEnd s @ rev (takeWhile isWhiteSpace (rev s))"
proof -
  have "rev (takeWhile isWhiteSpace (rev s) @ dropWhile isWhiteSpace (rev s)) = s"
    by (simp only: takeWhile_dropWhile_id rev_rev_ident)
  then show ?thesis by (simp only: rev_append trimEnd_def)
qed

lemma subseq_trimEnd: "subseq (trimEnd s) s"
  by (rule prefix_imp_subseq) (metis prefixI trimEnd_decomp)

lemma subseq_dropWhile: "subseq (dropWhile P s) s"
  by (rule suffix_imp_subseq) (rule suffix_dropWhile)

lemma subseq_trim: "subseq (trim s) s"
  unfolding trim_def trimStart_def
  by (meson subseq_trimEnd subseq_dropWhile subseq_order.order_trans)

lemma subseq_markdownMatch:
  assumes "markdownMatch t = Some g"
  shows "subseq g t"
proof -
  from assms obtain before r where f1: "findFence t = Some (before, r)"
    by (auto simp: markdownMatch_def split: option.splits)
  define r1 where "r1 = (if prefix (js ''json'') r then drop 4 r else r)"
  define r2 where "r2 = dropWhile isWhiteSpace r1"
  from assms f1 obtain inner after where f2: "findFence r2 = Some (inner, after)"
    and g: "g = trimEnd inner"
    by (auto simp: markdownMatch_def Let_def r1_def r2_def split: option.splits)
  have "subseq g inner" using g subseq_trimEnd by simp
  also have "subseq inner r2"
    by (rule prefix_imp_subseq) (metis prefixI findFence_decomp [OF f2])
  also have "subseq r2 r1" unfolding r2_def by (rule subseq_dropWhile)
  also have "subseq r1 r" unfolding r1_def by (simp add: suffix_imp_subseq suffix_drop)
  also have "subseq r t"
    by (rule suffix_imp_subseq) (metis suffixI append.assoc findFence_decomp [OF f1])
  finally show ?thesis .
qed

lemma subseq_unwrapMarkdown: "subseq (unwrapMarkdown t) t"
proof (cases "markdownMatch (trim t)")
  case None
  then show ?thesis by (simp add: unwrapMarkdown_def subseq_trim)
next
  case (Some g)
  have "subseq (trim g) g" by (rule subseq_trim)
  also have "subseq g (trim t)" by (rule subseq_markdownMatch [OF Some])
  also have "subseq (trim t) t" by (rule subseq_trim)
  finally show ?thesis using Some by (simp add: unwrapMarkdown_def)
qed

lemma length_fixTrailingCommas: "length (fixTrailingCommas t) \<le> length t"
proof (induction t rule: fixTrailingCommas.induct)
  case 1
  then show ?case by simp
next
  case (2 c cs)
  show ?case
  proof (cases "c = 44")
    case False
    with 2 show ?thesis by simp
  next
    case True
    show ?thesis
    proof (cases "dropWhile isWhiteSpace cs")
      case Nil
      with 2 True show ?thesis by (simp del: dropWhile_eq_Nil_conv)
    next
      case (Cons d r)
      have cs: "cs = takeWhile isWhiteSpace cs @ d # r"
        using Cons by (metis takeWhile_dropWhile_id)
      show ?thesis
      proof (cases "d = 125 \<or> d = 93")
        case False
        with 2 True Cons show ?thesis by simp
      next
        case d: True
        from "2.IH"(2) [OF True Cons d] have "length (fixTrailingCommas r) \<le> length r" .
        moreover have "length cs = length (takeWhile isWhiteSpace cs) + 1 + length r"
          by (subst cs) simp
        ultimately show ?thesis using True Cons d by simp
      qed
    qed
  qed
qed

lemma subseq_fixTrailingCommas: "subseq (fixTrailingCommas t) t"
proof (induction t rule: fixTrailingCommas.induct)
  case 1
  then show ?case by simp
next
  case (2 c cs)
  show ?case
  proof (cases "c = 44")
    case False
    with 2 show ?thesis by simp
  next
    case True
    show ?thesis
    proof (cases "dropWhile isWhiteSpace cs")
      case Nil
      with 2 True show ?thesis by (simp del: dropWhile_eq_Nil_conv)
    next
      case (Cons d r)
      have cs: "cs = takeWhile isWhiteSpace cs @ d # r"
        using Cons by (metis takeWhile_dropWhile_id)
      show ?thesis
      proof (cases "d = 125 \<or> d = 93")
        case False
        with 2 True Cons show ?thesis by simp
      next
        case d: True
        from "2.IH"(2) [OF True Cons d] have "subseq (fixTrailingCommas r) r" .
        then have "subseq (takeWhile isWhiteSpace cs @ d # fixTrailingCommas r)
                     (takeWhile isWhiteSpace cs @ d # r)"
          by (simp add: list_emb_append_mono)
        then have "subseq (takeWhile isWhiteSpace cs @ d # fixTrailingCommas r) cs"
          using cs by simp
        then have "subseq (takeWhile isWhiteSpace cs @ d # fixTrailingCommas r) (c # cs)"
          by (rule list_emb_Cons)
        then show ?thesis using True Cons d by simp
      qed
    qed
  qed
qed

lemma indexOf_ge: "- 1 \<le> indexOf s ch"
  by (induction s) (auto simp: Let_def)

lemma indexOf_notin: "ch \<notin> set s \<Longrightarrow> indexOf s ch = - 1"
  by (induction s) (auto simp: Let_def)

lemma indexOf_in: "ch \<in> set s \<Longrightarrow> 0 \<le> indexOf s ch"
  by (induction s) (auto simp: Let_def)

lemma indexOf_append:
  "indexOf (a @ b) ch =
     (if ch \<in> set a then indexOf a ch
      else if indexOf b ch = - 1 then - 1 else int (length a) + indexOf b ch)"
proof (induction a)
  case Nil
  then show ?case by simp
next
  case (Cons x a)
  show ?case
  proof (cases "x = ch")
    case True
    then show ?thesis by simp
  next
    case False
    then show ?thesis
      using Cons indexOf_ge [of b ch] indexOf_in [of ch a] by (auto simp: Let_def)
  qed
qed

lemma indexOf_first: "ch \<notin> set a \<Longrightarrow> indexOf (a @ ch # b) ch = int (length a)"
  by (simp add: indexOf_append)

lemma lastIndexOf_notin: "ch \<notin> set s \<Longrightarrow> lastIndexOf s ch = - 1"
  by (simp add: lastIndexOf_def indexOf_notin)

lemma lastIndexOf_last: "ch \<notin> set b \<Longrightarrow> lastIndexOf (a @ ch # b) ch = int (length a)"
  by (simp add: lastIndexOf_def indexOf_append Let_def)

lemma subseq_pair: "subseq [x, y] (a @ x # m @ y # b)"
proof -
  have "subseq [y] (m @ y # b)" by (intro list_emb_append2) simp
  then have "subseq [x, y] (x # m @ y # b)" by simp
  then show ?thesis by (rule list_emb_append2)
qed

lemma span_of_indices:
  assumes "indexOf s x \<noteq> - 1" and "indexOf s x < lastIndexOf s y"
  shows "subseq [x, y] s"
proof -
  from assms(1) have "x \<in> set s" using indexOf_notin by blast
  then obtain a b where s1: "s = a @ x # b" and xa: "x \<notin> set a"
    by (meson split_list_first)
  have i: "indexOf s x = int (length a)" using s1 xa by (simp add: indexOf_first)
  from assms(2) indexOf_ge [of s x] have "lastIndexOf s y \<noteq> - 1" by linarith
  then have "y \<in> set s" using lastIndexOf_notin by blast
  then obtain a' b' where s2: "s = a' @ y # b'" and yb: "y \<notin> set b'"
    by (meson split_list_last)
  have j: "lastIndexOf s y = int (length a')" using s2 yb by (simp add: lastIndexOf_last)
  from assms(2) i j have lt: "length a < length a'" by simp
  from s1 s2 have "a @ x # b = a' @ y # b'" by simp
  then obtain us where "(a = a' @ us \<and> us @ x # b = y # b') \<or> (a @ us = a' \<and> x # b = us @ y # b')"
    by (auto simp: append_eq_append_conv2)
  with lt obtain us where a': "a @ us = a'" and xb: "x # b = us @ y # b'" by auto
  from a' lt have "us \<noteq> []" by auto
  with xb obtain m where "us = x # m" by (cases us) auto
  with a' s2 have "s = a @ x # m @ y # b'" by auto
  then show ?thesis using subseq_pair by simp
qed

lemma outerBounds_no_span:
  assumes "\<not> subseq [123, 125] s" and "\<not> subseq [91, 93] s"
  shows "outerBounds s = s"
proof -
  from assms(1) span_of_indices [of s 123 125]
  have b: "indexOf s 123 = - 1 \<or> \<not> indexOf s 123 < lastIndexOf s 125" by blast
  from assms(2) span_of_indices [of s 91 93]
  have k: "indexOf s 91 = - 1 \<or> \<not> indexOf s 91 < lastIndexOf s 93" by blast
  from b k show ?thesis
    unfolding outerBounds_def Let_def by (auto split: if_splits)
qed

lemma substring_middle:
  "substring (p @ m @ q) (int (length p)) (int (length p) + int (length m)) = m"
  by (simp add: substring_def Let_def min_def max_def)

lemma outerBounds_object:
  assumes "123 \<notin> set p" and "91 \<notin> set p" and "125 \<notin> set q"
  shows "outerBounds (p @ (123 # m @ [125]) @ q) = 123 # m @ [125]"
proof -
  let ?s = "p @ (123 # m @ [125]) @ q"
  have fb: "indexOf ?s 123 = int (length p)"
    using assms(1) indexOf_first [of 123 p "m @ [125] @ q"] by simp
  have fk: "indexOf ?s 91 = - 1 \<or> int (length p) < indexOf ?s 91"
    using assms(2) indexOf_ge [of "m @ 125 # q" 91]
    by (auto simp: indexOf_append Let_def)
  have "lastIndexOf ((p @ 123 # m) @ 125 # q) 125 = int (length (p @ 123 # m))"
    using assms(3) by (rule lastIndexOf_last)
  then have lb: "lastIndexOf ?s 125 = int (length p) + int (length m) + 1" by simp
  have sub: "substring ?s (int (length p)) (int (length p) + int (length m) + 1 + 1) = 123 # m @ [125]"
    using substring_middle [of p "123 # m @ [125]" q] by (simp add: ac_simps)
  from fk show ?thesis
    unfolding outerBounds_def Let_def fb lb using sub by auto
qed

lemma JSON_parse_span:
  assumes "JSON_parse s = Inr v"
  shows "isScalar v \<or> subseq [123, 125] s \<or> subseq [91, 93] s"
proof -
  from assms obtain r where p: "parseValue s = Some (v, r)"
    by (auto simp: JSON_parse_def split: option.splits if_splits)
  show ?thesis
  proof (cases v)
    case (JArray vs)
    with parseValue_array_span p obtain a b where "s = a @ 91 # b @ 93 # r" by blast
    then show ?thesis using subseq_pair [of 91 93 a b r] by simp
  next
    case (JObject ms)
    with parseValue_object_span p obtain a b where "s = a @ 123 # b @ 125 # r" by blast
    then show ?thesis using subseq_pair [of 123 125 a b r] by simp
  qed (simp_all add: isScalar_def)
qed

section \<open>The trailing-comma repair and scalar texts\<close>

text \<open>
  The repair only takes commas away, and each comma it takes stands before a closing
  brace or bracket that stays. So a text whose repair holds no such closer is its own
  repair.
\<close>

lemma fixTrailingCommas_keeps:
  "x \<in> set c \<Longrightarrow> x \<noteq> 44 \<Longrightarrow> x \<in> set (fixTrailingCommas c)"
proof (induction c rule: fixTrailingCommas.induct)
  case 1
  then show ?case by simp
next
  case (2 c cs)
  show ?case
  proof (cases "c = 44")
    case False
    with 2 show ?thesis by auto
  next
    case True
    show ?thesis
    proof (cases "dropWhile isWhiteSpace cs")
      case Nil
      with 2 True show ?thesis by (auto simp del: dropWhile_eq_Nil_conv)
    next
      case (Cons d r)
      have cs: "cs = takeWhile isWhiteSpace cs @ d # r"
        using Cons by (metis takeWhile_dropWhile_id)
      show ?thesis
      proof (cases "d = 125 \<or> d = 93")
        case False
        with 2 True Cons show ?thesis by auto
      next
        case d: True
        from "2.prems" True have "x \<in> set cs" by simp
        then have "x \<in> set (takeWhile isWhiteSpace cs) \<or> x = d \<or> x \<in> set r"
          using cs by (metis Un_iff set_ConsD set_append)
        moreover have "x \<in> set r \<Longrightarrow> x \<in> set (fixTrailingCommas r)"
          using "2.IH"(2) [OF True Cons d] "2.prems" by simp
        ultimately show ?thesis using True Cons d by auto
      qed
    qed
  qed
qed

lemma fixTrailingCommas_no_closer:
  "125 \<notin> set c \<Longrightarrow> 93 \<notin> set c \<Longrightarrow> fixTrailingCommas c = c"
proof (induction c)
  case Nil
  then show ?case by simp
next
  case (Cons x c)
  show ?case
  proof (cases "dropWhile isWhiteSpace c")
    case Nil
    with Cons show ?thesis by (simp del: dropWhile_eq_Nil_conv)
  next
    case (Cons d r)
    then have "d \<in> set c" by (metis list.set_intros(1) set_dropWhileD)
    with Cons.prems have "\<not> (d = 125 \<or> d = 93)" by auto
    with Cons Cons.IH Cons.prems show ?thesis by simp
  qed
qed

lemma fixTrailingCommas_closer_free:
  assumes "125 \<notin> set (fixTrailingCommas c)" and "93 \<notin> set (fixTrailingCommas c)"
  shows "fixTrailingCommas c = c"
proof -
  have "125 \<notin> set c" using assms(1) fixTrailingCommas_keeps [of 125 c] by auto
  moreover have "93 \<notin> set c" using assms(2) fixTrailingCommas_keeps [of 93 c] by auto
  ultimately show ?thesis by (rule fixTrailingCommas_no_closer)
qed

text \<open>
  The text of a number or of a literal \<^verbatim>\<open>true\<close>, \<^verbatim>\<open>false\<close>, \<^verbatim>\<open>null\<close> holds no
  closing brace or bracket.
\<close>

lemma parseInt_lexeme:
  assumes "parseInt s = Some (i, r)"
  shows "s = i @ r \<and> (\<forall>x\<in>set i. isDigit x)"
proof (cases s)
  case Nil
  with assms show ?thesis by (simp add: parseInt_def)
next
  case (Cons c cs)
  show ?thesis
  proof (cases "c = 48")
    case True
    with assms Cons show ?thesis by (auto simp: parseInt_def isDigit_def)
  next
    case False
    with assms Cons have d: "isDigit c" and i: "i = c # takeWhile isDigit cs"
      and r: "r = dropWhile isDigit cs"
      by (auto simp: parseInt_def split: if_splits)
    from i r Cons have "s = i @ r" by simp
    moreover from d i have "\<forall>x\<in>set i. isDigit x" by (auto dest: set_takeWhileD)
    ultimately show ?thesis by simp
  qed
qed

lemma parseFrac_lexeme:
  assumes "parseFrac s = Some (f, r)"
  shows "s = f @ r \<and> (\<forall>x\<in>set f. x = 46 \<or> isDigit x)"
proof (cases s)
  case Nil
  with assms show ?thesis by (simp add: parseFrac_def)
next
  case (Cons c cs)
  show ?thesis
  proof (cases "c = 46")
    case False
    with assms Cons show ?thesis by (simp add: parseFrac_def)
  next
    case True
    with assms Cons have f: "f = c # takeWhile isDigit cs" and r: "r = dropWhile isDigit cs"
      by (auto simp: parseFrac_def split: if_splits)
    from f r Cons have "s = f @ r" by simp
    moreover from True f have "\<forall>x\<in>set f. x = 46 \<or> isDigit x" by (auto dest: set_takeWhileD)
    ultimately show ?thesis by simp
  qed
qed

lemma parseExp_lexeme:
  assumes "parseExp s = Some (e, r)"
  shows "s = e @ r \<and> (\<forall>x\<in>set e. x = 101 \<or> x = 69 \<or> x = 43 \<or> x = 45 \<or> isDigit x)"
proof (cases s)
  case Nil
  with assms show ?thesis by (simp add: parseExp_def)
next
  case (Cons c cs)
  show ?thesis
  proof (cases "c = 101 \<or> c = 69")
    case False
    with assms Cons show ?thesis by (simp add: parseExp_def)
  next
    case True
    obtain sign where sign:
      "sign = (case cs of d # _ \<Rightarrow> if d = 43 \<or> d = 45 then [d] else [] | [] \<Rightarrow> [])" by simp
    have cs: "cs = sign @ drop (length sign) cs"
      unfolding sign by (cases cs) auto
    have sg: "\<forall>x\<in>set sign. x = 43 \<or> x = 45"
      unfolding sign by (cases cs) auto
    from assms Cons True
    have e: "e = c # sign @ takeWhile isDigit (drop (length sign) cs)"
      and r: "r = dropWhile isDigit (drop (length sign) cs)"
      unfolding sign by (auto simp: parseExp_def Let_def split: if_splits)
    have "s = e @ r"
      unfolding e r Cons using cs by (metis append_Cons append_assoc takeWhile_dropWhile_id)
    moreover from True e sg
    have "\<forall>x\<in>set e. x = 101 \<or> x = 69 \<or> x = 43 \<or> x = 45 \<or> isDigit x"
      by (auto dest: set_takeWhileD)
    ultimately show ?thesis by simp
  qed
qed

lemma parseNumber_lexeme:
  assumes "parseNumber s = Some (lexeme, r)"
  shows "s = lexeme @ r \<and> 125 \<notin> set lexeme \<and> 93 \<notin> set lexeme"
proof -
  obtain sign where sign: "sign = (case s of c # _ \<Rightarrow> if c = 45 then [c] else [] | [] \<Rightarrow> [])"
    by simp
  have s: "s = sign @ drop (length sign) s" unfolding sign by (cases s) auto
  have sg: "\<forall>x\<in>set sign. x = 45" unfolding sign by (cases s) auto
  from assms obtain i r1 f r2 e where
    i: "parseInt (drop (length sign) s) = Some (i, r1)" and
    f: "parseFrac r1 = Some (f, r2)" and
    e: "parseExp r2 = Some (e, r)" and
    lx: "lexeme = sign @ i @ f @ e"
    unfolding sign by (auto simp: parseNumber_def Let_def split: option.splits)
  from parseInt_lexeme [OF i] parseFrac_lexeme [OF f] parseExp_lexeme [OF e]
  have parts: "drop (length sign) s = i @ f @ e @ r"
    and chars: "\<forall>x\<in>set (i @ f @ e).
                  x = 46 \<or> x = 101 \<or> x = 69 \<or> x = 43 \<or> x = 45 \<or> isDigit x"
    by auto
  from s parts lx have "s = lexeme @ r" by simp
  moreover have "x \<noteq> 125 \<and> x \<noteq> 93" if "x \<in> set lexeme" for x
  proof -
    from that lx have "x \<in> set sign \<or> x \<in> set (i @ f @ e)" by auto
    with sg chars have "x = 46 \<or> x = 101 \<or> x = 69 \<or> x = 43 \<or> x = 45 \<or> isDigit x" by blast
    then show ?thesis by (auto simp: isDigit_def)
  qed
  then have "125 \<notin> set lexeme \<and> 93 \<notin> set lexeme" by blast
  ultimately show ?thesis by simp
qed

lemma parseValue_plain_scalar:
  assumes p: "parseValue t = Some (v, r)"
    and v: "v = JNull \<or> (\<exists>b. v = JBool b) \<or> (\<exists>n. v = JNumber n)"
  shows "\<exists>w tok. t = w @ tok @ r \<and> (\<forall>x\<in>set w. isJsonWs x) \<and>
                  125 \<notin> set tok \<and> 93 \<notin> set tok"
proof -
  from p obtain c cs where sk: "skipWs t = c # cs"
    by (cases "skipWs t") (auto simp: parseValue.simps [of t])
  have t: "t = takeWhile isJsonWs t @ c # cs"
    using sk unfolding skipWs_def by (metis takeWhile_dropWhile_id)
  have w: "\<forall>x\<in>set (takeWhile isJsonWs t). isJsonWs x" by (auto dest: set_takeWhileD)
  have "\<exists>tok. c # cs = tok @ r \<and> 125 \<notin> set tok \<and> 93 \<notin> set tok"
  proof -
    from p sk v have nb: "c \<noteq> 123" "c \<noteq> 91" "c \<noteq> 34"
      by (auto simp: parseValue.simps [of t] split: list.splits option.splits if_splits)
    show ?thesis
    proof (cases "prefix (js ''true'') (c # cs)")
      case True
      with p sk nb have "r = drop 4 (c # cs)" by (simp add: parseValue.simps [of t])
      moreover from True have "c # cs = js ''true'' @ drop 4 (c # cs)"
        by (auto simp: prefix_def js_def)
      ultimately show ?thesis by (intro exI [of _ "js ''true''"]) (simp add: js_def)
    next
      case nt: False
      show ?thesis
      proof (cases "prefix (js ''false'') (c # cs)")
        case True
        with p sk nb nt have "r = drop 5 (c # cs)" by (simp add: parseValue.simps [of t])
        moreover from True have "c # cs = js ''false'' @ drop 5 (c # cs)"
          by (auto simp: prefix_def js_def)
        ultimately show ?thesis by (intro exI [of _ "js ''false''"]) (simp add: js_def)
      next
        case nf: False
        show ?thesis
        proof (cases "prefix (js ''null'') (c # cs)")
          case True
          with p sk nb nt nf have "r = drop 4 (c # cs)" by (simp add: parseValue.simps [of t])
          moreover from True have "c # cs = js ''null'' @ drop 4 (c # cs)"
            by (auto simp: prefix_def js_def)
          ultimately show ?thesis by (intro exI [of _ "js ''null''"]) (simp add: js_def)
        next
          case nn: False
          with p sk nb nt nf obtain lexeme where "parseNumber (c # cs) = Some (lexeme, r)"
            by (auto simp: parseValue.simps [of t] split: option.splits)
          from parseNumber_lexeme [OF this] show ?thesis by blast
        qed
      qed
    qed
  qed
  then obtain tok where "c # cs = tok @ r" "125 \<notin> set tok" "93 \<notin> set tok" by blast
  with t w show ?thesis
    by (intro exI [of _ "takeWhile isJsonWs t"] exI [of _ tok]) simp
qed

lemma JSON_parse_plain_scalar:
  assumes "JSON_parse t = Inr v"
    and "v = JNull \<or> (\<exists>b. v = JBool b) \<or> (\<exists>n. v = JNumber n)"
  shows "125 \<notin> set t \<and> 93 \<notin> set t"
proof -
  from assms(1) obtain r where p: "parseValue t = Some (v, r)" and r: "skipWs r = []"
    by (auto simp: JSON_parse_def split: option.splits if_splits)
  from parseValue_plain_scalar [OF p assms(2)] obtain w tok where
    t: "t = w @ tok @ r" "\<forall>x\<in>set w. isJsonWs x" "125 \<notin> set tok" "93 \<notin> set tok" by blast
  from r have "\<forall>x\<in>set r. isJsonWs x" by (simp add: skipWs_def)
  with t show ?thesis by (auto simp: isJsonWs_def)
qed

text \<open>
  A string literal: where the repair of a text is read as the body of a string, up to
  its closing quote, the text itself is read as such a body too. The commas the repair
  took away were characters of the string.
\<close>

lemma fixTrailingCommas_cases:
  "fixTrailingCommas (c # cs) = c # fixTrailingCommas cs \<or>
   (c = 44 \<and> (\<exists>w d r. cs = w @ d # r \<and> (\<forall>u\<in>set w. isWhiteSpace u) \<and> (d = 125 \<or> d = 93) \<and>
                 fixTrailingCommas (c # cs) = w @ d # fixTrailingCommas r))"
proof (cases "c = 44")
  case False
  then show ?thesis by simp
next
  case True
  show ?thesis
  proof (cases "dropWhile isWhiteSpace cs")
    case Nil
    with True show ?thesis by (simp del: dropWhile_eq_Nil_conv)
  next
    case (Cons d r)
    show ?thesis
    proof (cases "d = 125 \<or> d = 93")
      case False
      with True Cons show ?thesis by simp
    next
      case d: True
      have cs: "cs = takeWhile isWhiteSpace cs @ d # r"
        using Cons by (metis takeWhile_dropWhile_id)
      have w: "\<forall>u\<in>set (takeWhile isWhiteSpace cs). isWhiteSpace u"
        by (auto dest: set_takeWhileD)
      have "fixTrailingCommas (c # cs) = takeWhile isWhiteSpace cs @ d # fixTrailingCommas r"
        using True Cons d by auto
      with True cs w d show ?thesis by blast
    qed
  qed
qed

lemma fixTrailingCommas_head:
  assumes "fixTrailingCommas cs = e # r0"
    and "\<not> isWhiteSpace e" and "e \<noteq> 125" and "e \<noteq> 93"
  shows "\<exists>cs'. cs = e # cs' \<and> fixTrailingCommas cs' = r0"
proof (cases cs)
  case Nil
  with assms(1) show ?thesis by simp
next
  case (Cons x xs)
  from fixTrailingCommas_cases [of x xs] show ?thesis
  proof
    assume "fixTrailingCommas (x # xs) = x # fixTrailingCommas xs"
    with assms(1) Cons show ?thesis by simp
  next
    assume "x = 44 \<and> (\<exists>w d r. xs = w @ d # r \<and> (\<forall>u\<in>set w. isWhiteSpace u) \<and>
                (d = 125 \<or> d = 93) \<and> fixTrailingCommas (x # xs) = w @ d # fixTrailingCommas r)"
    then obtain w d r where w: "\<forall>u\<in>set w. isWhiteSpace u" and d: "d = 125 \<or> d = 93"
      and f: "fixTrailingCommas (x # xs) = w @ d # fixTrailingCommas r" by blast
    from f assms(1) Cons have "e # r0 = w @ d # fixTrailingCommas r" by simp
    then have "e \<in> set w \<or> e = d" by (cases w) auto
    with w d assms(2-4) show ?thesis by auto
  qed
qed

lemma hexVal_char: "hexVal c = Some n \<Longrightarrow> \<not> isWhiteSpace c \<and> c \<noteq> 125 \<and> c \<noteq> 93"
  by (auto simp: hexVal_def isWhiteSpace_def split: if_splits)

lemma hex4_chars:
  assumes "hex4 s = Some n"
  shows "\<exists>a b c d r x y z u. s = a # b # c # d # r \<and>
           hexVal a = Some x \<and> hexVal b = Some y \<and> hexVal c = Some z \<and> hexVal d = Some u"
  using assms by (auto simp: hex4_def split: list.splits option.splits)

lemma hex4_fixTrailingCommas:
  assumes "hex4 (fixTrailingCommas z) = Some n"
  shows "hex4 z = Some n \<and> drop 4 (fixTrailingCommas z) = fixTrailingCommas (drop 4 z)"
proof -
  from hex4_chars [OF assms] obtain a b c d r x y k u where
    f: "fixTrailingCommas z = a # b # c # d # r" and
    h: "hexVal a = Some x" "hexVal b = Some y" "hexVal c = Some k" "hexVal d = Some u" by blast
  from fixTrailingCommas_head [OF f] hexVal_char [OF h(1)]
  obtain z1 where z1: "z = a # z1" "fixTrailingCommas z1 = b # c # d # r" by blast
  from fixTrailingCommas_head [OF z1(2)] hexVal_char [OF h(2)]
  obtain z2 where z2: "z1 = b # z2" "fixTrailingCommas z2 = c # d # r" by blast
  from fixTrailingCommas_head [OF z2(2)] hexVal_char [OF h(3)]
  obtain z3 where z3: "z2 = c # z3" "fixTrailingCommas z3 = d # r" by blast
  from fixTrailingCommas_head [OF z3(2)] hexVal_char [OF h(4)]
  obtain z4 where z4: "z3 = d # z4" "fixTrailingCommas z4 = r" by blast
  have z: "z = a # b # c # d # z4" using z1 z2 z3 z4 by simp
  have "hex4 (a # b # c # d # z4) = hex4 (a # b # c # d # r)" by (simp add: hex4_def)
  with assms f have "hex4 (a # b # c # d # z4) = Some n" by simp
  moreover have "drop 4 (a # b # c # d # r) = fixTrailingCommas (drop 4 (a # b # c # d # z4))"
    using z4 by simp
  ultimately show ?thesis using f z by simp
qed

lemma unescape_char: "unescape e = Some u \<Longrightarrow> \<not> isWhiteSpace e \<and> e \<noteq> 125 \<and> e \<noteq> 93 \<and> e \<noteq> 117"
  by (auto simp: unescape_def isWhiteSpace_def split: if_splits)

lemma parseStringBody_plain:
  assumes "\<forall>ch\<in>set pre. ch \<noteq> 34 \<and> ch \<noteq> 92 \<and> 32 \<le> ch"
  shows "parseStringBody (pre @ y) =
           (case parseStringBody y of None \<Rightarrow> None | Some (s, r) \<Rightarrow> Some (pre @ s, r))"
  using assms
proof (induction pre)
  case Nil
  then show ?case by (simp split: option.splits)
next
  case (Cons a pre)
  then show ?case by (auto simp: consChar_def split: option.splits)
qed

lemma parseStringBody_control:
  assumes "\<forall>ch\<in>set pre. ch \<noteq> 34 \<and> ch \<noteq> 92" and "\<exists>ch\<in>set pre. ch < 32"
  shows "parseStringBody (pre @ y) = None"
  using assms
proof (induction pre)
  case Nil
  then show ?case by simp
next
  case (Cons a pre)
  show ?case
  proof (cases "a < 32")
    case True
    with Cons.prems show ?thesis by simp
  next
    case False
    with Cons.prems have "\<exists>ch\<in>set pre. ch < 32" by auto
    with Cons have "parseStringBody (pre @ y) = None" by simp
    with False Cons.prems show ?thesis by (simp add: consChar_def)
  qed
qed

lemma white_not_quote: "isWhiteSpace u \<Longrightarrow> u \<noteq> 34 \<and> u \<noteq> 92"
  by (auto simp: isWhiteSpace_def)

lemma parseStringBody_fixTrailingCommas:
  "parseStringBody (fixTrailingCommas x) = Some (str', r') \<Longrightarrow>
     \<exists>str r. parseStringBody x = Some (str, r) \<and> fixTrailingCommas r = r'"
proof (induction x arbitrary: str' r' rule: length_induct)
  case (1 x)
  note IH = "1.IH" [rule_format]
  note p = "1.prems"
  show ?case
  proof (cases x)
    case Nil
    with p show ?thesis by simp
  next
    case (Cons c cs)
    from fixTrailingCommas_cases [of c cs] show ?thesis
    proof
      assume "c = 44 \<and> (\<exists>w d r. cs = w @ d # r \<and> (\<forall>u\<in>set w. isWhiteSpace u) \<and>
                (d = 125 \<or> d = 93) \<and> fixTrailingCommas (c # cs) = w @ d # fixTrailingCommas r)"
      then obtain w d rest where c: "c = 44" and cs: "cs = w @ d # rest"
        and w: "\<forall>u\<in>set w. isWhiteSpace u" and d: "d = 125 \<or> d = 93"
        and f: "fixTrailingCommas (c # cs) = (w @ [d]) @ fixTrailingCommas rest" by auto
      have nq: "\<forall>ch\<in>set (w @ [d]). ch \<noteq> 34 \<and> ch \<noteq> 92"
        using w d white_not_quote by auto
      have big: "\<forall>ch\<in>set (w @ [d]). 32 \<le> ch"
      proof (rule ccontr)
        assume "\<not> ?thesis"
        then have "\<exists>ch\<in>set (w @ [d]). ch < 32" by (auto simp: not_le)
        with nq have "parseStringBody ((w @ [d]) @ fixTrailingCommas rest) = None"
          by (rule parseStringBody_control)
        with p f Cons show False by simp
      qed
      with nq have plain: "\<forall>ch\<in>set (w @ [d]). ch \<noteq> 34 \<and> ch \<noteq> 92 \<and> 32 \<le> ch" by blast
      from p f Cons parseStringBody_plain [OF plain, of "fixTrailingCommas rest"]
      obtain s2 where s2: "parseStringBody (fixTrailingCommas rest) = Some (s2, r')"
        by (auto split: option.splits)
      have "length rest < length x" using Cons cs by simp
      from IH [OF this s2] obtain s r where
        r: "parseStringBody rest = Some (s, r)" "fixTrailingCommas r = r'" by blast
      have plain2: "\<forall>ch\<in>set (44 # w @ [d]). ch \<noteq> 34 \<and> ch \<noteq> 92 \<and> 32 \<le> ch"
        using plain by simp
      have "x = (44 # w @ [d]) @ rest" using Cons c cs by simp
      with parseStringBody_plain [OF plain2, of rest] r
      show ?thesis by simp
    next
      assume keep: "fixTrailingCommas (c # cs) = c # fixTrailingCommas cs"
      have short: "length cs < length x" using Cons by simp
      show ?thesis
      proof (cases "c = 34")
        case True
        with p keep Cons show ?thesis by simp
      next
        case nq: False
        show ?thesis
        proof (cases "c = 92")
          case True
          from p keep Cons True obtain e r0 where e: "fixTrailingCommas cs = e # r0"
            by (cases "fixTrailingCommas cs") auto
          show ?thesis
          proof (cases "e = 117")
            case u: True
            have ne: "\<not> isWhiteSpace e \<and> e \<noteq> 125 \<and> e \<noteq> 93"
              using u by (simp add: isWhiteSpace_def)
            with fixTrailingCommas_head [OF e] obtain cs' where
              cs': "cs = e # cs'" "fixTrailingCommas cs' = r0" by blast
            from p keep Cons True e u obtain n s2 where
              n: "hex4 r0 = Some n" and s2: "parseStringBody (drop 4 r0) = Some (s2, r')"
              by (auto simp: consChar_def split: option.splits)
            from hex4_fixTrailingCommas [of cs' n] n cs'
            have h: "hex4 cs' = Some n" "drop 4 r0 = fixTrailingCommas (drop 4 cs')" by auto
            have "length (drop 4 cs') < length x" using Cons cs' by simp
            from IH [OF this s2 [unfolded h(2)]] obtain s r where
              "parseStringBody (drop 4 cs') = Some (s, r)" "fixTrailingCommas r = r'" by blast
            with Cons True cs' u h(1) show ?thesis by (simp add: consChar_def)
          next
            case nu: False
            from p keep Cons True e nu obtain v s2 where
              v: "unescape e = Some v" and s2: "parseStringBody r0 = Some (s2, r')"
              by (auto simp: consChar_def split: option.splits)
            from unescape_char [OF v] fixTrailingCommas_head [OF e] obtain cs' where
              cs': "cs = e # cs'" "fixTrailingCommas cs' = r0" by blast
            have "length cs' < length x" using Cons cs' by simp
            from IH [OF this s2 [folded cs'(2)]] obtain s r where
              "parseStringBody cs' = Some (s, r)" "fixTrailingCommas r = r'" by blast
            with Cons True cs' nu v show ?thesis by (simp add: consChar_def)
          qed
        next
          case nb: False
          from p keep Cons nq nb have ge: "\<not> c < 32" by (auto split: if_splits)
          with p keep Cons nq nb obtain s2 where
            s2: "parseStringBody (fixTrailingCommas cs) = Some (s2, r')"
            by (auto simp: consChar_def split: option.splits)
          from IH [OF short s2] obtain s r where
            "parseStringBody cs = Some (s, r)" "fixTrailingCommas r = r'" by blast
          with Cons nq nb ge show ?thesis by (simp add: consChar_def)
        qed
      qed
    qed
  qed
qed

text \<open>
  Hence the repair never turns a text that does not parse into a scalar: a text with
  no brace span and no bracket span that fails the strict parse fails the repaired
  parse too.
\<close>

lemma skipWs_fixTrailingCommas:
  assumes "skipWs (fixTrailingCommas c) = q # y'"
    and "\<not> isWhiteSpace q" and "q \<noteq> 125" and "q \<noteq> 93" and "q \<noteq> 44"
  shows "\<exists>y. skipWs c = q # y \<and> fixTrailingCommas y = y'"
  using assms(1)
proof (induction c)
  case Nil
  then show ?case by (simp add: skipWs_def)
next
  case (Cons x cs)
  from fixTrailingCommas_cases [of x cs] show ?case
  proof
    assume keep: "fixTrailingCommas (x # cs) = x # fixTrailingCommas cs"
    show ?thesis
    proof (cases "isJsonWs x")
      case True
      with Cons.prems keep have "skipWs (fixTrailingCommas cs) = q # y'"
        by (simp add: skipWs_def)
      from Cons.IH [OF this] True show ?thesis by (simp add: skipWs_def)
    next
      case False
      with Cons.prems keep have "q = x" "y' = fixTrailingCommas cs" by (simp_all add: skipWs_def)
      with False show ?thesis by (simp add: skipWs_def)
    qed
  next
    assume "x = 44 \<and> (\<exists>w d r. cs = w @ d # r \<and> (\<forall>u\<in>set w. isWhiteSpace u) \<and>
                (d = 125 \<or> d = 93) \<and> fixTrailingCommas (x # cs) = w @ d # fixTrailingCommas r)"
    then obtain w d r where w: "\<forall>u\<in>set w. isWhiteSpace u" and d: "d = 125 \<or> d = 93"
      and f: "fixTrailingCommas (x # cs) = w @ d # fixTrailingCommas r" by blast
    have nd: "\<not> isJsonWs d" using d by (auto simp: isJsonWs_def)
    from Cons.prems f have "q = hd (dropWhile isJsonWs (w @ d # fixTrailingCommas r))"
      by (simp add: skipWs_def)
    moreover have "hd (dropWhile isJsonWs (w @ d # fixTrailingCommas r)) \<in> set (w @ [d])"
    proof (cases "\<forall>u\<in>set w. isJsonWs u")
      case True
      then have "dropWhile isJsonWs (w @ d # fixTrailingCommas r) = d # fixTrailingCommas r"
        using nd by (simp add: dropWhile_append2)
      then show ?thesis by simp
    next
      case False
      then obtain u where u: "u \<in> set w" "\<not> isJsonWs u" by blast
      then have e: "dropWhile isJsonWs (w @ d # fixTrailingCommas r)
                 = dropWhile isJsonWs w @ d # fixTrailingCommas r"
        by (simp add: dropWhile_append1)
      from u have ne: "dropWhile isJsonWs w \<noteq> []" by auto
      then have "hd (dropWhile isJsonWs w) \<in> set w"
        by (metis hd_in_set set_dropWhileD)
      with e ne show ?thesis by simp
    qed
    ultimately have "q \<in> set (w @ [d])" by auto
    with w d assms(2-4) show ?thesis by auto
  qed
qed

lemma repair_of_scalar:
  assumes f: "JSON_parse (fixTrailingCommas c) = Inr v" and v: "isScalar v"
  shows "JSON_parse c = Inr v \<or> (\<exists>s. JSON_parse c = Inr (JString s))"
proof (cases "\<exists>s. v = JString s")
  case False
  with v have "v = JNull \<or> (\<exists>b. v = JBool b) \<or> (\<exists>n. v = JNumber n)"
    by (cases v) (auto simp: isScalar_def)
  from JSON_parse_plain_scalar [OF f this] have "fixTrailingCommas c = c"
    by (intro fixTrailingCommas_closer_free) auto
  with f show ?thesis by simp
next
  case True
  then obtain s' where s': "v = JString s'" by blast
  from f obtain r' where p: "parseValue (fixTrailingCommas c) = Some (v, r')"
    and r': "skipWs r' = []"
    by (auto simp: JSON_parse_def split: option.splits if_splits)
  from p obtain q y' where sk: "skipWs (fixTrailingCommas c) = q # y'"
    by (cases "skipWs (fixTrailingCommas c)") (auto simp: parseValue.simps [of "fixTrailingCommas c"])
  have q: "q = 34"
  proof (rule ccontr)
    assume "q \<noteq> 34"
    with p sk s' show False
      by (auto simp: parseValue.simps [of "fixTrailingCommas c"]
            split: list.splits option.splits if_splits)
  qed
  with p sk s' have body: "parseStringBody y' = Some (s', r')"
    by (auto simp: parseValue.simps [of "fixTrailingCommas c"] split: option.splits)
  have "\<not> isWhiteSpace q" "q \<noteq> 125" "q \<noteq> 93" "q \<noteq> 44"
    using q by (simp_all add: isWhiteSpace_def)
  from skipWs_fixTrailingCommas [OF sk this] obtain y where
    y: "skipWs c = q # y" "fixTrailingCommas y = y'" by blast
  from parseStringBody_fixTrailingCommas [of y s' r'] body y(2) obtain s r where
    s: "parseStringBody y = Some (s, r)" and r: "fixTrailingCommas r = r'" by auto
  from r' have "\<forall>x\<in>set r'. isJsonWs x" by (simp add: skipWs_def)
  then have "125 \<notin> set r' \<and> 93 \<notin> set r'" by (auto simp: isJsonWs_def)
  with r have "fixTrailingCommas r = r"
    by (intro fixTrailingCommas_closer_free) auto
  with r r' have "skipWs r = []" by simp
  moreover from y(1) q s have "parseValue c = Some (JString s, r)"
    by (simp add: parseValue.simps [of c])
  ultimately have "JSON_parse c = Inr (JString s)" by (simp add: JSON_parse_def)
  then show ?thesis by blast
qed

lemma repair_useless_without_span:
  assumes "\<not> subseq [123, 125] c" and "\<not> subseq [91, 93] c"
    and "JSON_parse c = Inl e"
  shows "\<exists>e2. JSON_parse (fixTrailingCommas c) = Inl e2"
proof (cases "JSON_parse (fixTrailingCommas c)")
  case (Inl e2)
  then show ?thesis by blast
next
  case (Inr v)
  have subf: "subseq (fixTrailingCommas c) c" by (rule subseq_fixTrailingCommas)
  have "\<not> subseq [123, 125] (fixTrailingCommas c)" "\<not> subseq [91, 93] (fixTrailingCommas c)"
    using assms(1,2) subf subseq_order.order_trans by blast+
  with JSON_parse_span [OF Inr] have "isScalar v" by blast
  from repair_of_scalar [OF Inr this] assms(3) show ?thesis by auto
qed

section \<open>Evaluating the definitions on concrete texts\<close>

lemmas ev = js_def isWhiteSpace_def trimStart_def trimEnd_def trim_def lastIndexOf_def substring_def
  Error_def errorText_def isJsonWs_def skipWs_def isDigit_def hexVal_def hex4_def unescape_def
  consChar_def parseInt_def parseFrac_def parseExp_def parseNumber_def
  parseValue.simps parseElements.simps parseMembers.simps SyntaxError_def JSON_parse_def
  markdownMatch_def unwrapMarkdown_def outerBounds_def parseFailure_def safeJSONParse_def Let_def

section \<open>The response extractor: failures\<close>

lemma safeJSONParse_cases:
  "safeJSONParse t =
     (case JSON_parse (outerBounds (unwrapMarkdown t)) of
        Inr v \<Rightarrow> ([], Inr v)
      | Inl e \<Rightarrow>
          (case JSON_parse (fixTrailingCommas (outerBounds (unwrapMarkdown t))) of
             Inr v \<Rightarrow> ([], Inr v)
           | Inl e2 \<Rightarrow> ([[js ''Failed to parse JSON:'', t]], Inl parseFailure)))"
  by (simp add: safeJSONParse_def Let_def)

text \<open>
  C6, as the code has it. Whatever the text, the only error \<open>safeJSONParse\<close> throws
  is the one error "Failed to parse model response as JSON...": the SyntaxError of
  \<^verbatim>\<open>JSON.parse\<close> never leaves it. For a text with no opening brace followed later
  by a closing brace, and no opening bracket followed later by a closing bracket, the
  outcome is decided by the text as trimmed and taken out of its fenced block if it has
  one. When that is a JSON text, it is a scalar (a string, a number, true, false or
  null), and the extractor returns it. When it is not, the extractor writes the console
  line and throws the one error: the trailing-comma repair cannot help such a text.
\<close>

theorem safeJSONParse_without_span:
  "(\<forall>e. snd (safeJSONParse t) = Inl e \<longrightarrow> e = parseFailure) \<and>
   (\<not> subseq [123, 125] t \<and> \<not> subseq [91, 93] t \<longrightarrow>
      (\<forall>v. JSON_parse (unwrapMarkdown t) = Inr v \<longrightarrow>
           safeJSONParse t = ([], Inr v) \<and> isScalar v) \<and>
      (\<forall>e1. JSON_parse (unwrapMarkdown t) = Inl e1 \<longrightarrow>
           safeJSONParse t = ([[js ''Failed to parse JSON:'', t]], Inl parseFailure)))"
proof (intro conjI allI impI)
  fix e
  assume "snd (safeJSONParse t) = Inl e"
  then show "e = parseFailure"
    by (auto simp: safeJSONParse_cases split: sum.splits)
next
  assume ns: "\<not> subseq [123, 125] t \<and> \<not> subseq [91, 93] t"
  let ?c = "unwrapMarkdown t"
  have sub: "subseq ?c t" by (rule subseq_unwrapMarkdown)
  have c1: "\<not> subseq [123, 125] ?c" using ns sub subseq_order.order_trans by blast
  have c2: "\<not> subseq [91, 93] ?c" using ns sub subseq_order.order_trans by blast
  have ob: "outerBounds ?c = ?c" using c1 c2 by (rule outerBounds_no_span)
  {
    fix v
    assume p: "JSON_parse ?c = Inr v"
    then show "safeJSONParse t = ([], Inr v)" using ob by (simp add: safeJSONParse_cases)
    from JSON_parse_span [OF p] c1 c2 show "isScalar v" by blast
  }
  {
    fix e1
    assume p: "JSON_parse ?c = Inl e1"
    from repair_useless_without_span [OF c1 c2 p] obtain e2 where
      "JSON_parse (fixTrailingCommas ?c) = Inl e2" by blast
    with p show "safeJSONParse t = ([[js ''Failed to parse JSON:'', t]], Inl parseFailure)"
      using ob by (simp add: safeJSONParse_cases)
  }
qed

text \<open>
  The theorem at a refusal in plain prose (no span, not a JSON text: the one error) and
  at the literal \<^verbatim>\<open>true\<close> in a fenced block (no span, a JSON text: the scalar is
  returned).
\<close>

theorem safeJSONParse_without_span_witness:
  "\<not> subseq [123, 125] (js ''I cannot help with that.'') \<and>
   \<not> subseq [91, 93] (js ''I cannot help with that.'') \<and>
   JSON_parse (unwrapMarkdown (js ''I cannot help with that.'')) = Inl SyntaxError \<and>
   safeJSONParse (js ''I cannot help with that.'')
     = ([[js ''Failed to parse JSON:'', js ''I cannot help with that.'']], Inl parseFailure) \<and>
   \<not> subseq [123, 125] (js ''```json'' @ [10] @ js ''true'' @ [10] @ js ''```'') \<and>
   \<not> subseq [91, 93] (js ''```json'' @ [10] @ js ''true'' @ [10] @ js ''```'') \<and>
   JSON_parse (unwrapMarkdown (js ''```json'' @ [10] @ js ''true'' @ [10] @ js ''```'')) = Inr (JBool True) \<and>
   safeJSONParse (js ''```json'' @ [10] @ js ''true'' @ [10] @ js ''```'') = ([], Inr (JBool True)) \<and>
   isScalar (JBool True)"
proof -
  let ?r = "js ''I cannot help with that.''"
  let ?f = "js ''```json'' @ [10] @ js ''true'' @ [10] @ js ''```''"
  have a: "\<not> subseq [123, 125] ?r \<and> \<not> subseq [91, 93] ?r" by (simp add: js_def)
  have p1: "JSON_parse (unwrapMarkdown ?r) = Inl SyntaxError" by (simp add: ev)
  have b: "\<not> subseq [123, 125] ?f \<and> \<not> subseq [91, 93] ?f" by (simp add: js_def)
  have q: "JSON_parse (unwrapMarkdown ?f) = Inr (JBool True)" by (simp add: ev)
  from safeJSONParse_without_span [of ?r] a p1
  have r: "safeJSONParse ?r = ([[js ''Failed to parse JSON:'', ?r]], Inl parseFailure)" by blast
  from safeJSONParse_without_span [of ?f] b q
  have s: "safeJSONParse ?f = ([], Inr (JBool True)) \<and> isScalar (JBool True)" by blast
  from a p1 r b q s show ?thesis by blast
qed

text \<open>
  The claim as worded fails: the text \<^verbatim>\<open>42\<close> has no brace and no bracket, and the
  extractor returns the number instead of failing.
\<close>

theorem safeJSONParse_scalar_counterexample:
  "\<not> subseq [123, 125] (js ''42'') \<and> \<not> subseq [91, 93] (js ''42'') \<and>
   safeJSONParse (js ''42'') = ([], Inr (JNumber (js ''42'')))"
  by (simp add: ev)

text \<open>
  C7, as the code has it. When the strict parse and the repaired parse of the cleaned
  text both fail, the extractor writes the original raw text to the error console,
  after the label "Failed to parse JSON:", and throws an error made from a fixed
  message; the raw text is in the console line, not in the error.
\<close>

theorem safeJSONParse_failure_report:
  assumes "JSON_parse (outerBounds (unwrapMarkdown t)) = Inl e1"
    and "JSON_parse (fixTrailingCommas (outerBounds (unwrapMarkdown t))) = Inl e2"
  shows "safeJSONParse t = ([[js ''Failed to parse JSON:'', t]], Inl parseFailure) \<and>
         parseFailure = Error (js ''Failed to parse model response as JSON. The response might be incomplete or malformed.'')"
  using assms by (simp add: safeJSONParse_cases parseFailure_def)

theorem safeJSONParse_failure_report_witness:
  "safeJSONParse (js ''{oops'') = ([[js ''Failed to parse JSON:'', js ''{oops'']], Inl parseFailure) \<and>
   parseFailure = Error (js ''Failed to parse model response as JSON. The response might be incomplete or malformed.'')"
proof -
  have a: "JSON_parse (outerBounds (unwrapMarkdown (js ''{oops''))) = Inl SyntaxError"
    by (simp add: ev)
  have b: "JSON_parse (fixTrailingCommas (outerBounds (unwrapMarkdown (js ''{oops'')))) = Inl SyntaxError"
    by (simp add: ev)
  from safeJSONParse_failure_report [OF a b] show ?thesis .
qed

text \<open>
  The claim as worded fails: on the text \<^verbatim>\<open>{oops\<close> both parses fail, and the error
  thrown holds the raw text neither in its message nor in its string form, and has no
  other field.
\<close>

theorem safeJSONParse_error_without_text_counterexample:
  "snd (safeJSONParse (js ''{oops'')) = Inl parseFailure \<and>
   \<not> js_includes (errorText parseFailure) (js ''{oops'') \<and>
   \<not> js_includes (toStringResult parseFailure) (js ''{oops'') \<and>
   status parseFailure = JSUndefined \<and> code parseFailure = JSUndefined"
  by (simp add: ev)

section \<open>Structured generation with the primary provider: strict, fallback, retry\<close>

lemmas run = emit_def callGenerateContent_def callOpenSelectKey_def getGoogleClient_def
  readResponse_def strictStep_def fallbackStep_def strictThenFallback_def
  scriptedEnv_def answer_def countEvents_def isGenerateContent_def isGenerateVideos_def
  isGetVideosOperation_def isFetch_def studioWith_def startWorld_def
  notFoundError_def rateLimitError_def textResponse_def unscripted_def
  isAuthError_def toLowerCase_def lowerUnit_def

lemma trace_emit [simp]: "trace (emit ev w) = trace w @ [ev]"
  by (simp add: emit_def)

lemma API_KEY_emit [simp]: "API_KEY (emit ev w) = API_KEY w"
  by (simp add: emit_def)

lemma strictStep_world: "fst (strictStep E T cfg key w) = emit (GenerateContent (strictRequest T cfg key)) w"
  by (simp add: strictStep_def callGenerateContent_def split: sum.splits)

lemma fallbackStep_world: "fst (fallbackStep E T cfg key w) = emit (GenerateContent (fallbackRequest T cfg key)) w"
  by (simp add: fallbackStep_def callGenerateContent_def split: sum.splits)






lemma since_self [simp]: "since w w = []"
  by (simp add: since_def)

lemma since_append: "trace w' = trace w @ evs \<Longrightarrow> since w w' = evs"
  by (simp add: since_def)

lemma strictThenFallback_trace:
  assumes "strictThenFallback E T cfg key w = (w', r)"
  shows "API_KEY w' = API_KEY w \<and>
         (trace w' = trace w @ [GenerateContent (strictRequest T cfg key)] \<or>
          trace w' = trace w @ [GenerateContent (strictRequest T cfg key),
                                GenerateContent (fallbackRequest T cfg key)])"
proof -
  obtain w1 r1 where s: "strictStep E T cfg key w = (w1, r1)" by (cases "strictStep E T cfg key w")
  then have w1: "w1 = emit (GenerateContent (strictRequest T cfg key)) w"
    using strictStep_world [of E T cfg key w] by simp
  show ?thesis
  proof (cases "\<exists>e. r1 = Inl e \<and> \<not> isAuthError e")
    case True
    then obtain e where e: "r1 = Inl e" "\<not> isAuthError e" by blast
    with s assms have "fallbackStep E T cfg key w1 = (w', r)"
      by (simp add: strictThenFallback_def)
    then have "w' = emit (GenerateContent (fallbackRequest T cfg key)) w1"
      using fallbackStep_world [of E T cfg key w1] by simp
    with w1 show ?thesis by simp
  next
    case False
    with s assms have "w' = w1"
      by (cases r1) (auto simp: strictThenFallback_def split: if_splits)
    with w1 show ?thesis by simp
  qed
qed

lemma callOpenSelectKey_trace:
  "callOpenSelectKey a w = (w', r) \<Longrightarrow> trace w' = trace w @ [OpenSelectKey]"
  by (auto simp: callOpenSelectKey_def split: sum.splits)


lemma count_strict [simp]:
  "isStrictRequest (GenerateContent (strictRequest T cfg key))"
  "\<not> isStrictRequest (GenerateContent (fallbackRequest T cfg key))"
  "\<not> isStrictRequest OpenSelectKey"
  by (simp_all add: isStrictRequest_def strictRequest_def fallbackRequest_def)

lemma count_kinds [simp]:
  "isGenerateContent (GenerateContent r)" "\<not> isGenerateContent OpenSelectKey"
  "isOpenSelectKey OpenSelectKey" "\<not> isOpenSelectKey (GenerateContent r)"
  by (simp_all add: isGenerateContent_def isOpenSelectKey_def)


lemma googleConfig_simps:
  "apiKey googleConfig = js ''key-1''" "provider googleConfig = google"
  by (simp_all add: googleConfig_def)



section \<open>OpenAI-compatible providers: a failed request\<close>

text \<open>
  \<open>analyzeStory\<close> with a compatible provider: the error for a status outside 200 to 299
  carries the status and the body.
\<close>

lemma analyzeStory_request_failed:
  assumes "provider cfg \<noteq> google"
    and "fetch E (trace w) (chatRequest cfg [(js ''system'', analysisSystemMessage lang), (js ''user'', s)])
           = Inr response"
    and "\<not> ok response"
  shows "snd (analyzeStory E s cfg lang w) =
           Inl (Error (js ''Model request failed: '' @ showNat (http_status response) @ js '' '' @
                       response_body response))"
  using assms by (simp add: analyzeStory_def analyzeStoryOpenAICompatible_def callFetch_def)

text \<open>
  C8 at a response with status 500 and the body "upstream exploded": \<open>polishStory\<close>
  throws an error whose message has the status and not the body; \<open>analyzeStory\<close>
  throws an error whose message has both.
\<close>

theorem polishStory_request_failed_without_body:
  "polishStory
     (scriptedEnv [] [] [] [Inr \<lparr> http_status = 500, response_body = js ''upstream exploded'' \<rparr>] None)
     (js ''Once'') openaiConfig en startWorld
   = (\<lparr> API_KEY = None,
         trace = [Fetch (chatRequest openaiConfig
                    [(js ''system'', polishSystemMessage en), (js ''user'', js ''Once'')])] \<rparr>,
      Inl (Error (js ''Polish request failed: 500''))) \<and>
   \<not> js_includes (errorText (Error (js ''Polish request failed: 500''))) (js ''upstream exploded'') \<and>
   snd (analyzeStory
     (scriptedEnv [] [] [] [Inr \<lparr> http_status = 500, response_body = js ''upstream exploded'' \<rparr>] None)
     (js ''Once'') openaiConfig en startWorld)
   = Inl (Error (js ''Model request failed: 500 upstream exploded''))"
proof -
  have p: "provider openaiConfig \<noteq> google" by (simp add: openaiConfig_def)
  have n: "showNat 500 = js ''500''" by (simp add: showNat.simps js_def)
  have a: "polishStory
     (scriptedEnv [] [] [] [Inr \<lparr> http_status = 500, response_body = js ''upstream exploded'' \<rparr>] None)
     (js ''Once'') openaiConfig en startWorld
   = (\<lparr> API_KEY = None,
         trace = [Fetch (chatRequest openaiConfig
                    [(js ''system'', polishSystemMessage en), (js ''user'', js ''Once'')])] \<rparr>,
      Inl (Error (js ''Polish request failed: 500'')))"
    using p by (simp add: polishStory_def polishStoryCompatible_def callFetch_def run ok_def n)
       (simp add: js_def)
  have b: "\<not> js_includes (errorText (Error (js ''Polish request failed: 500''))) (js ''upstream exploded'')"
    by (simp add: ev)
  have c: "snd (analyzeStory
     (scriptedEnv [] [] [] [Inr \<lparr> http_status = 500, response_body = js ''upstream exploded'' \<rparr>] None)
     (js ''Once'') openaiConfig en startWorld)
   = Inl (Error (js ''Model request failed: 500 upstream exploded''))"
    using p by (simp add: analyzeStory_def analyzeStoryOpenAICompatible_def callFetch_def run ok_def n)
       (simp add: js_def)
  from a b c show ?thesis by blast
qed

section \<open>Image and video generation: the retry layer\<close>

lemma veoKey_no_studio:
  assumes "aistudio E = None"
  shows "fst (veoKey E cfg w) = w"
  using assms by (simp add: veoKey_def Let_def)

text \<open>
  Without \<^verbatim>\<open>window.aistudio\<close>, a call whose first attempt fails with an auth-class
  error rejects at once, in the world of the failure: no key dialog, no further
  request. \<open>analyzeStory\<close>, \<open>polishStory\<close> (provider \<open>google\<close>), \<open>generateVeoVideo\<close>
  and the fallback branch of \<open>generateAssetImage\<close> reject with the error of the
  attempt itself.
\<close>

lemma attempt_no_studio:
  assumes "aistudio E = None"
    and "getGoogleClient (apiKey cfg) w = Inr key"
    and "strictThenFallback E T cfg key w = (w1, Inl e)"
  shows "attempt E T cfg isRetry w = (w1, Inl e)"
    and "provider cfg = google \<Longrightarrow> T = analysisTask s lang \<Longrightarrow>
           analyzeStory E s cfg lang w = (w1, Inl e)"
    and "provider cfg = google \<Longrightarrow> T = polishTask s lang \<Longrightarrow>
           polishStory E s cfg lang w = (w1, Inl e)"
    and "countEvents isOpenSelectKey (since w w1) = 0"
proof -
  show res: "attempt E T cfg isRetry w = (w1, Inl e)" for isRetry
    using assms by (simp add: attempt.simps [of E T cfg isRetry w])
  show "analyzeStory E s cfg lang w = (w1, Inl e)"
    if "provider cfg = google" "T = analysisTask s lang"
    using that res [of False] by (simp add: analyzeStory_def analyzeStoryGoogle_def)
  show "polishStory E s cfg lang w = (w1, Inl e)"
    if "provider cfg = google" "T = polishTask s lang"
    using that res [of False] by (simp add: polishStory_def polishStoryGoogle_def)
  from strictThenFallback_trace [OF assms(3)]
  show "countEvents isOpenSelectKey (since w w1) = 0"
    by (auto simp: since_def countEvents_def)
qed

lemma veoAttempt_no_studio:
  assumes "aistudio E = None"
    and "veoKey E cfg w = (w0, Inr key)"
    and "veoTry E key (veoModelName cfg) p img ratio w0 = Some (w1, Inl e)"
  shows "generateVeoVideo E p img ratio cfg w = Some (w1, Inl e) \<and> w0 = w"
  using assms veoKey_no_studio [OF assms(1), of cfg w]
  by (simp add: generateVeoVideo_def veoAttempt.simps [of E p img ratio cfg False w])

lemma attemptFallback_no_studio:
  assumes "aistudio E = None"
    and "provider cfg \<noteq> google" and "\<not> usesOpenAIImages cfg"
    and "API_KEY w = Some key" and "key \<noteq> []"
    and "fallbackTry E (imagePrompt d c n) key w = (w1, Inl e)"
  shows "generateAssetImage E d c n cfg w = (w1, Inl e)"
  using assms
  by (simp add: generateAssetImage_def Let_def fallbackClientKey_def
        attemptFallback.simps [of E "imagePrompt d c n" False w])

text \<open>
  The branch of \<open>generateAssetImage\<close> for the provider \<open>google\<close> rejects with a new
  error, made from the message of the error of the attempt.
\<close>

lemma imageAttempt_no_studio:
  assumes "aistudio E = None"
    and "provider cfg = google"
    and "getGoogleClient (apiKey cfg) w = Inr key"
    and "imageTry E (imagePrompt d c n) key (imageModelName cfg) w = (w1, Inl e)"
  shows "generateAssetImage E d c n cfg w = (w1, Inl (imageFailure e))"
  using assms
  by (simp add: generateAssetImage_def Let_def
        imageAttempt.simps [of E "imagePrompt d c n" cfg False w])

text \<open>
  C5 at four calls without \<^verbatim>\<open>window.aistudio\<close> whose first request is rejected with
  the auth-class error "Requested entity was not found.". The image call with the
  provider \<open>google\<close> rejects with another error, "Image Generation Failed: Requested
  entity was not found."; the image call that takes the fallback branch, the analysis
  call and the video call reject with the error of the request itself. Each call has
  made that one request and opened no dialog. When the error of the request is
  auth-class by its code 404 alone, the error of the image call is not auth-class.
\<close>

theorem generateAssetImage_wraps_auth_error:
  "isAuthError notFoundError \<and>
   generateAssetImage (scriptedEnv [Inl notFoundError] [] [] [] None)
      (js ''a fox'') (js ''a forest'') None googleConfig startWorld
    = (\<lparr> API_KEY = None,
          trace = [GenerateContent
                     \<lparr> clientKey = js ''key-1'', model = js ''gemini-2.5-flash-image'',
                       contents = PartsContents [imagePrompt (js ''a fox'') (js ''a forest'') None],
                       config = \<lparr> responseMimeType = None, responseSchema = None,
                                  cfg_temperature = None, cfg_topP = None, maxOutputTokens = None,
                                  safetySettings = SAFETY_SETTINGS \<rparr> \<rparr>] \<rparr>,
       Inl (Error (js ''Image Generation Failed: Requested entity was not found.''))) \<and>
   Error (js ''Image Generation Failed: Requested entity was not found.'') \<noteq> notFoundError \<and>
   generateAssetImage (scriptedEnv [Inl notFoundError] [] [] [] None)
      (js ''a fox'') (js ''a forest'') None ollamaConfig
      \<lparr> API_KEY = Some (js ''env-key''), trace = [] \<rparr>
    = (\<lparr> API_KEY = Some (js ''env-key''),
          trace = [GenerateContent
                     \<lparr> clientKey = js ''env-key'', model = js ''gemini-2.5-flash-image'',
                       contents = PartsContents [imagePrompt (js ''a fox'') (js ''a forest'') None],
                       config = \<lparr> responseMimeType = None, responseSchema = None,
                                  cfg_temperature = None, cfg_topP = None, maxOutputTokens = None,
                                  safetySettings = SAFETY_SETTINGS \<rparr> \<rparr>] \<rparr>,
       Inl notFoundError) \<and>
   analyzeStory (scriptedEnv [Inl notFoundError] [] [] [] None)
      (js ''A fox tricks a crow.'') googleConfig en startWorld
    = (\<lparr> API_KEY = None,
          trace = [GenerateContent (strictRequest (analysisTask (js ''A fox tricks a crow.'') en)
                      googleConfig (js ''key-1''))] \<rparr>,
       Inl notFoundError) \<and>
   generateVeoVideo (scriptedEnv [] [Inl notFoundError] [] [] None)
      (js ''A fox runs'') None Landscape_16_9 (Some googleConfig) startWorld
    = Some (\<lparr> API_KEY = None,
               trace = [GenerateVideos (videoRequest (js ''key-1'') (js ''veo-3.1-fast-generate-preview'')
                          (js ''A fox runs'') None Landscape_16_9)] \<rparr>,
            Inl notFoundError) \<and>
   isAuthError \<lparr> message = Some (js ''denied''), toStringResult = js ''Error: denied'',
                 status = JSUndefined, code = JSNumber 404 \<rparr> \<and>
   snd (generateAssetImage
          (scriptedEnv [Inl \<lparr> message = Some (js ''denied''), toStringResult = js ''Error: denied'',
                               status = JSUndefined, code = JSNumber 404 \<rparr>] [] [] [] None)
          (js ''a fox'') (js ''a forest'') None googleConfig startWorld)
     = Inl (Error (js ''Image Generation Failed: denied'')) \<and>
   \<not> isAuthError (Error (js ''Image Generation Failed: denied''))"
proof -
  let ?E = "scriptedEnv [Inl notFoundError] [] [] [] None"
  let ?V = "scriptedEnv [] [Inl notFoundError] [] [] None"
  let ?e = "\<lparr> message = Some (js ''denied''), toStringResult = js ''Error: denied'',
              status = JSUndefined, code = JSNumber 404 \<rparr>"
  let ?D = "scriptedEnv [Inl ?e] [] [] [] None"
  let ?T = "analysisTask (js ''A fox tricks a crow.'') en"
  let ?p = "imagePrompt (js ''a fox'') (js ''a forest'') None"
  let ?cfg = "\<lparr> responseMimeType = None, responseSchema = None, cfg_temperature = None,
                cfg_topP = None, maxOutputTokens = None, safetySettings = SAFETY_SETTINGS \<rparr>"
  let ?w1 = "\<lparr> API_KEY = None,
          trace = [GenerateContent (strictRequest ?T googleConfig (js ''key-1''))] \<rparr>"
  let ?wv = "\<lparr> API_KEY = None,
               trace = [GenerateVideos (videoRequest (js ''key-1'') (js ''veo-3.1-fast-generate-preview'')
                          (js ''A fox runs'') None Landscape_16_9)] \<rparr>"
  let ?wi = "\<lparr> API_KEY = None,
          trace = [GenerateContent
                     \<lparr> clientKey = js ''key-1'', model = js ''gemini-2.5-flash-image'',
                       contents = PartsContents [?p], config = ?cfg \<rparr>] \<rparr>"
  let ?w0 = "\<lparr> API_KEY = Some (js ''env-key''), trace = [] \<rparr>"
  let ?wf = "\<lparr> API_KEY = Some (js ''env-key''),
          trace = [GenerateContent
                     \<lparr> clientKey = js ''env-key'', model = js ''gemini-2.5-flash-image'',
                       contents = PartsContents [?p], config = ?cfg \<rparr>] \<rparr>"
  have none: "aistudio ?E = None" "aistudio ?V = None" "aistudio ?D = None"
    by (simp_all add: scriptedEnv_def)
  have key: "getGoogleClient (apiKey googleConfig) startWorld = Inr (js ''key-1'')"
    by (simp add: run js_def googleConfig_simps)
  have auth: "isAuthError notFoundError" by (simp add: run ev)
  have first: "strictThenFallback ?E ?T googleConfig (js ''key-1'') startWorld = (?w1, Inl notFoundError)"
    by (simp add: run ev)
  have a: "analyzeStory ?E (js ''A fox tricks a crow.'') googleConfig en startWorld = (?w1, Inl notFoundError)"
    using attempt_no_studio(2) [OF none(1) key first] by (simp add: googleConfig_simps)
  have vkey: "veoKey ?V (Some googleConfig) startWorld = (startWorld, Inr (js ''key-1''))"
    by (simp add: veoKey_def Let_def googleConfig_def scriptedEnv_def js_def)
  have vmodel: "veoModelName (Some googleConfig) = js ''veo-3.1-fast-generate-preview''"
    by (simp add: veoModelName_def googleConfig_def orElse_def js_def)
  have vtry: "veoTry ?V (js ''key-1'') (veoModelName (Some googleConfig)) (js ''A fox runs'') None
                Landscape_16_9 startWorld = Some (?wv, Inl notFoundError)"
    by (simp add: vmodel veoTry_def callGenerateVideos_def run)
  have v: "generateVeoVideo ?V (js ''A fox runs'') None Landscape_16_9 (Some googleConfig) startWorld
          = Some (?wv, Inl notFoundError)"
    using veoAttempt_no_studio [OF none(2) vkey vtry] by simp
  have imodel: "imageModelName googleConfig = js ''gemini-2.5-flash-image''"
    by (simp add: imageModelName_def googleConfig_def orElse_def js_def)
  have itry: "imageTry ?E ?p (js ''key-1'') (imageModelName googleConfig) startWorld
                = (?wi, Inl notFoundError)"
    unfolding imodel by (simp add: imageTry_def callGenerateContent_def scriptedEnv_def answer_def
          countEvents_def startWorld_def emit_def toLowerCase_def lowerUnit_def js_def)
  have wrapped: "imageFailure notFoundError
                   = Error (js ''Image Generation Failed: Requested entity was not found.'')"
    by (simp add: imageFailure_def notFoundError_def Error_def js_def)
  have i: "generateAssetImage ?E (js ''a fox'') (js ''a forest'') None googleConfig startWorld
             = (?wi, Inl (Error (js ''Image Generation Failed: Requested entity was not found.'')))"
    using imageAttempt_no_studio [OF none(1) googleConfig_simps(2) key itry] wrapped by simp
  have ne: "Error (js ''Image Generation Failed: Requested entity was not found.'') \<noteq> notFoundError"
    by (simp add: notFoundError_def Error_def js_def)
  have route: "provider ollamaConfig \<noteq> google" "\<not> usesOpenAIImages ollamaConfig"
    by (simp_all add: ollamaConfig_def usesOpenAIImages_def)
  have ftry: "fallbackTry ?E ?p (js ''env-key'') ?w0 = (?wf, Inl notFoundError)"
    by (simp add: fallbackTry_def callGenerateContent_def scriptedEnv_def answer_def
          countEvents_def emit_def)
  have f: "generateAssetImage ?E (js ''a fox'') (js ''a forest'') None ollamaConfig ?w0
             = (?wf, Inl notFoundError)"
    by (rule attemptFallback_no_studio [OF none(1) route _ _ ftry]) (simp_all add: js_def)
  have auth2: "isAuthError ?e" by (simp add: isAuthError_def)
  have itry2: "snd (imageTry ?D ?p (js ''key-1'') (imageModelName googleConfig) startWorld) = Inl ?e"
    unfolding imodel by (simp add: imageTry_def callGenerateContent_def scriptedEnv_def answer_def
          countEvents_def startWorld_def toLowerCase_def lowerUnit_def js_def)
  have wrapped2: "imageFailure ?e = Error (js ''Image Generation Failed: denied'')"
    by (simp add: imageFailure_def js_def)
  have d: "snd (generateAssetImage ?D (js ''a fox'') (js ''a forest'') None googleConfig startWorld)
             = Inl (Error (js ''Image Generation Failed: denied''))"
    using imageAttempt_no_studio [OF none(3) googleConfig_simps(2) key, of "js ''a fox''"
        "js ''a forest''" None "fst (imageTry ?D ?p (js ''key-1'') (imageModelName googleConfig) startWorld)" ?e]
      itry2 wrapped2
    by (cases "imageTry ?D ?p (js ''key-1'') (imageModelName googleConfig) startWorld") simp
  have na: "\<not> isAuthError (Error (js ''Image Generation Failed: denied''))"
    by (simp add: run ev)
  from auth i ne f a v auth2 d na show ?thesis by blast
qed

lemma pollOperation_done:
  "op_done opn \<Longrightarrow> pollOperation E key opn w = Some (w, Inr opn)"
  by (subst pollOperation.simps) simp

lemma veoTry_poll_failure:
  assumes "callGenerateVideos E (videoRequest key m p img ratio) w0 = (ws, Inr opn)"
    and "pollOperation E key opn ws = Some (w1, Inl e)"
  shows "veoTry E key m p img ratio w0 = Some (w1, Inl e)"
  using assms by (simp add: veoTry_def)

text \<open>
  C9, as the code has it. In \<open>generateVeoVideo\<close> the whole of an attempt after the key
  is inside one \<^verbatim>\<open>try\<close> block: the submission, the polling loop, the reading of the
  URI and the download. When the first attempt fails there with an auth-class error,
  whichever step raised it, and \<^verbatim>\<open>window.aistudio\<close> is there and its key dialog
  resolves, the dialog is opened once and the call goes on as the second attempt. In
  particular an error raised by the polling loop after a successful submission is
  such a failure. A failure of the second attempt is final.
\<close>

theorem veo_retry_any_step:
  assumes key: "veoKey E cfg w = (w0, Inr key)"
    and fail: "veoTry E key (veoModelName cfg) p img ratio w0 = Some (w1, Inl e)"
    and auth: "isAuthError e"
    and studio: "aistudio E = Some a"
    and select: "callOpenSelectKey a w1 = (w2, Inr ())"
  shows "generateVeoVideo E p img ratio cfg w = veoAttempt E p img ratio cfg True w2 \<and>
         trace w2 = trace w1 @ [OpenSelectKey] \<and>
         (\<forall>ws opn.
            callGenerateVideos E (videoRequest key (veoModelName cfg) p img ratio) w0 = (ws, Inr opn) \<and>
            pollOperation E key opn ws = Some (w1, Inl e) \<longrightarrow>
              veoTry E key (veoModelName cfg) p img ratio w0 = Some (w1, Inl e)) \<and>
         (\<forall>w3 key2 w4 e2.
            veoKey E cfg w2 = (w3, Inr key2) \<and>
            veoTry E key2 (veoModelName cfg) p img ratio w3 = Some (w4, Inl e2) \<longrightarrow>
              veoAttempt E p img ratio cfg True w2 = Some (w4, Inl e2))"
proof (intro conjI allI impI)
  show "generateVeoVideo E p img ratio cfg w = veoAttempt E p img ratio cfg True w2"
    using key fail auth studio select
    by (simp add: generateVeoVideo_def veoAttempt.simps [of E p img ratio cfg False w])
  show "trace w2 = trace w1 @ [OpenSelectKey]"
    using select by (rule callOpenSelectKey_trace)
next
  fix ws opn
  assume "callGenerateVideos E (videoRequest key (veoModelName cfg) p img ratio) w0 = (ws, Inr opn) \<and>
            pollOperation E key opn ws = Some (w1, Inl e)"
  then show "veoTry E key (veoModelName cfg) p img ratio w0 = Some (w1, Inl e)"
    by (simp add: veoTry_poll_failure)
next
  fix w3 key2 w4 e2
  assume "veoKey E cfg w2 = (w3, Inr key2) \<and>
            veoTry E key2 (veoModelName cfg) p img ratio w3 = Some (w4, Inl e2)"
  then show "veoAttempt E p img ratio cfg True w2 = Some (w4, Inl e2)"
    by (simp add: veoAttempt.simps [of E p img ratio cfg True w2] split: option.splits)
qed

text \<open>
  A run in which the submission succeeds, the first poll is rejected with "Requested
  entity was not found.", and after the key dialog the second submission is done at
  once and its video is downloaded.
\<close>

lemma pollingEnv_model: "veoModelName (Some googleConfig) = js ''veo-3.1-fast-generate-preview''"
  by (simp add: veoModelName_def googleConfig_def orElse_def js_def)

lemma pollingEnv_key:
  "veoKey pollingEnv (Some googleConfig) \<lparr> API_KEY = k, trace = tr \<rparr>
     = (\<lparr> API_KEY = k, trace = tr \<rparr>, Inr (js ''key-1''))"
  by (simp add: veoKey_def Let_def googleConfig_def pollingEnv_def scriptedEnv_def js_def)

lemma pollingEnv_submit:
  "callGenerateVideos pollingEnv
     (videoRequest (js ''key-1'') (js ''veo-3.1-fast-generate-preview'') (js ''A fox runs'') None
        Landscape_16_9) startWorld
   = (\<lparr> API_KEY = None,
         trace = [GenerateVideos (videoRequest (js ''key-1'') (js ''veo-3.1-fast-generate-preview'')
                    (js ''A fox runs'') None Landscape_16_9)] \<rparr>,
      Inr \<lparr> op_done = False, videoUri = None \<rparr>)"
  by (simp add: callGenerateVideos_def pollingEnv_def run)

lemma pollingEnv_poll:
  "pollOperation pollingEnv (js ''key-1'') \<lparr> op_done = False, videoUri = None \<rparr>
     \<lparr> API_KEY = None,
       trace = [GenerateVideos (videoRequest (js ''key-1'') (js ''veo-3.1-fast-generate-preview'')
                  (js ''A fox runs'') None Landscape_16_9)] \<rparr>
   = Some (\<lparr> API_KEY = None,
              trace = [GenerateVideos (videoRequest (js ''key-1'') (js ''veo-3.1-fast-generate-preview'')
                         (js ''A fox runs'') None Landscape_16_9),
                       SetTimeout 5000,
                       GetVideosOperation (js ''key-1'') \<lparr> op_done = False, videoUri = None \<rparr>] \<rparr>,
           Inl notFoundError)"
  by (subst pollOperation.simps) (simp add: callGetVideosOperation_def pollingEnv_def run)

lemma pollingEnv_first:
  "veoTry pollingEnv (js ''key-1'') (veoModelName (Some googleConfig)) (js ''A fox runs'') None
     Landscape_16_9 startWorld
   = Some (\<lparr> API_KEY = None,
              trace = [GenerateVideos (videoRequest (js ''key-1'') (js ''veo-3.1-fast-generate-preview'')
                         (js ''A fox runs'') None Landscape_16_9),
                       SetTimeout 5000,
                       GetVideosOperation (js ''key-1'') \<lparr> op_done = False, videoUri = None \<rparr>] \<rparr>,
           Inl notFoundError)"
  unfolding pollingEnv_model
  by (rule veoTry_poll_failure [OF pollingEnv_submit pollingEnv_poll])

lemma pollingEnv_select:
  "aistudio pollingEnv = Some (studioWith (js ''key-2'')) \<and>
   callOpenSelectKey (studioWith (js ''key-2'')) \<lparr> API_KEY = None, trace = tr \<rparr>
     = (\<lparr> API_KEY = Some (js ''key-2''), trace = tr @ [OpenSelectKey] \<rparr>, Inr ())"
  by (simp add: pollingEnv_def scriptedEnv_def run)

lemma pollingEnv_second:
  "veoAttempt pollingEnv (js ''A fox runs'') None Landscape_16_9 (Some googleConfig) True
     \<lparr> API_KEY = Some (js ''key-2''),
       trace = [GenerateVideos (videoRequest (js ''key-1'') (js ''veo-3.1-fast-generate-preview'')
                  (js ''A fox runs'') None Landscape_16_9),
                SetTimeout 5000,
                GetVideosOperation (js ''key-1'') \<lparr> op_done = False, videoUri = None \<rparr>,
                OpenSelectKey] \<rparr>
   = Some (\<lparr> API_KEY = Some (js ''key-2''),
              trace =
                [GenerateVideos (videoRequest (js ''key-1'') (js ''veo-3.1-fast-generate-preview'')
                   (js ''A fox runs'') None Landscape_16_9),
                 SetTimeout 5000,
                 GetVideosOperation (js ''key-1'') \<lparr> op_done = False, videoUri = None \<rparr>,
                 OpenSelectKey,
                 GenerateVideos (videoRequest (js ''key-1'') (js ''veo-3.1-fast-generate-preview'')
                   (js ''A fox runs'') None Landscape_16_9),
                 Fetch \<lparr> url = js ''https://video.example/1?alt=media&key=key-1'',
                         http_method = js ''GET'', headers = [], body = None \<rparr>] \<rparr>,
           Inr (js ''blob:video''))"
proof -
  let ?r = "GenerateVideos (videoRequest (js ''key-1'') (js ''veo-3.1-fast-generate-preview'')
                    (js ''A fox runs'') None Landscape_16_9)"
  let ?op = "\<lparr> op_done = False, videoUri = None \<rparr>"
  let ?w2 = "\<lparr> API_KEY = Some (js ''key-2''),
               trace = [?r, SetTimeout 5000, GetVideosOperation (js ''key-1'') ?op, OpenSelectKey] \<rparr>"
  have t2: "veoTry pollingEnv (js ''key-1'') (veoModelName (Some googleConfig)) (js ''A fox runs'') None
              Landscape_16_9 ?w2
            = Some (\<lparr> API_KEY = Some (js ''key-2''),
               trace = [?r, SetTimeout 5000, GetVideosOperation (js ''key-1'') ?op, OpenSelectKey, ?r,
                  Fetch \<lparr> url = js ''https://video.example/1?alt=media&key=key-1'',
                          http_method = js ''GET'', headers = [], body = None \<rparr>] \<rparr>,
            Inr (js ''blob:video''))"
    unfolding pollingEnv_model
    by (simp add: veoTry_def callGenerateVideos_def callFetch_def pollingEnv_def run
          pollOperation_done)
       (simp add: js_def)
  show ?thesis
    by (simp add: veoAttempt.simps [of pollingEnv "js ''A fox runs''" None Landscape_16_9
          "Some googleConfig" True ?w2] pollingEnv_key t2)
qed

text \<open>The theorem at that run.\<close>

theorem veo_retry_any_step_witness:
  "isAuthError notFoundError \<and>
   generateVeoVideo pollingEnv (js ''A fox runs'') None Landscape_16_9 (Some googleConfig) startWorld
    = Some (\<lparr> API_KEY = Some (js ''key-2''),
               trace =
                 [GenerateVideos (videoRequest (js ''key-1'') (js ''veo-3.1-fast-generate-preview'')
                    (js ''A fox runs'') None Landscape_16_9),
                  SetTimeout 5000,
                  GetVideosOperation (js ''key-1'') \<lparr> op_done = False, videoUri = None \<rparr>,
                  OpenSelectKey,
                  GenerateVideos (videoRequest (js ''key-1'') (js ''veo-3.1-fast-generate-preview'')
                    (js ''A fox runs'') None Landscape_16_9),
                  Fetch \<lparr> url = js ''https://video.example/1?alt=media&key=key-1'',
                          http_method = js ''GET'', headers = [], body = None \<rparr>] \<rparr>,
            Inr (js ''blob:video''))"
proof -
  have auth: "isAuthError notFoundError" by (simp add: run ev)
  have k1: "veoKey pollingEnv (Some googleConfig) startWorld = (startWorld, Inr (js ''key-1''))"
    using pollingEnv_key [of None "[]"] by (simp add: startWorld_def)
  from veo_retry_any_step [OF k1 pollingEnv_first auth
      conjunct1 [OF pollingEnv_select] conjunct2 [OF pollingEnv_select]]
    pollingEnv_second auth
  show ?thesis by simp
qed

text \<open>
  The claim as worded fails: in that run the submission succeeded, the auth-class error
  was raised by the polling loop, and the key dialog was opened and the job submitted
  a second time.
\<close>

theorem veo_retry_after_poll_counterexample:
  "callGenerateVideos pollingEnv
     (videoRequest (js ''key-1'') (js ''veo-3.1-fast-generate-preview'') (js ''A fox runs'') None
        Landscape_16_9) startWorld
   = (\<lparr> API_KEY = None,
         trace = [GenerateVideos (videoRequest (js ''key-1'') (js ''veo-3.1-fast-generate-preview'')
                    (js ''A fox runs'') None Landscape_16_9)] \<rparr>,
      Inr \<lparr> op_done = False, videoUri = None \<rparr>) \<and>
   pollOperation pollingEnv (js ''key-1'') \<lparr> op_done = False, videoUri = None \<rparr>
     \<lparr> API_KEY = None,
       trace = [GenerateVideos (videoRequest (js ''key-1'') (js ''veo-3.1-fast-generate-preview'')
                  (js ''A fox runs'') None Landscape_16_9)] \<rparr>
   = Some (\<lparr> API_KEY = None,
              trace = [GenerateVideos (videoRequest (js ''key-1'') (js ''veo-3.1-fast-generate-preview'')
                         (js ''A fox runs'') None Landscape_16_9),
                       SetTimeout 5000,
                       GetVideosOperation (js ''key-1'') \<lparr> op_done = False, videoUri = None \<rparr>] \<rparr>,
           Inl notFoundError) \<and>
   isAuthError notFoundError \<and>
   (case generateVeoVideo pollingEnv (js ''A fox runs'') None Landscape_16_9 (Some googleConfig)
           startWorld of
      None \<Rightarrow> False
    | Some (w, r) \<Rightarrow>
        r = Inr (js ''blob:video'') \<and>
        countEvents isOpenSelectKey (trace w) = 1 \<and>
        countEvents isGenerateVideos (trace w) = 2)"
proof -
  have auth: "isAuthError notFoundError" by (simp add: run ev)
  have k1: "veoKey pollingEnv (Some googleConfig) startWorld = (startWorld, Inr (js ''key-1''))"
    using pollingEnv_key [of None "[]"] by (simp add: startWorld_def)
  have "generateVeoVideo pollingEnv (js ''A fox runs'') None Landscape_16_9 (Some googleConfig)
           startWorld
        = veoAttempt pollingEnv (js ''A fox runs'') None Landscape_16_9 (Some googleConfig) True
            \<lparr> API_KEY = Some (js ''key-2''),
              trace = [GenerateVideos (videoRequest (js ''key-1'') (js ''veo-3.1-fast-generate-preview'')
                         (js ''A fox runs'') None Landscape_16_9),
                       SetTimeout 5000,
                       GetVideosOperation (js ''key-1'') \<lparr> op_done = False, videoUri = None \<rparr>,
                       OpenSelectKey] \<rparr>"
    by (simp add: generateVeoVideo_def
          veoAttempt.simps [of pollingEnv "js ''A fox runs''" None Landscape_16_9
            "Some googleConfig" False startWorld]
          k1 pollingEnv_first auth pollingEnv_select)
  then have "case generateVeoVideo pollingEnv (js ''A fox runs'') None Landscape_16_9
                 (Some googleConfig) startWorld of
      None \<Rightarrow> False
    | Some (w, r) \<Rightarrow>
        r = Inr (js ''blob:video'') \<and>
        countEvents isOpenSelectKey (trace w) = 1 \<and>
        countEvents isGenerateVideos (trace w) = 2"
    by (simp add: pollingEnv_second countEvents_def isOpenSelectKey_def isGenerateVideos_def)
  with pollingEnv_submit pollingEnv_poll auth show ?thesis by blast
qed

section \<open>Video generation: the credential\<close>

subsection \<open>The requests of an attempt\<close>

lemma pollOperation_trace:
  assumes "pollOperation E key opn w = Some y"
  shows "\<exists>rest. trace (fst y) = trace w @ rest \<and> (\<forall>ev\<in>set rest. madeWithKey key ev)"
proof (rule pollOperation.raw_induct
    [where P = "\<lambda>E key opn w y.
       \<exists>rest. trace (fst y) = trace w @ rest \<and> (\<forall>ev\<in>set rest. madeWithKey key ev)", OF _ assms])
  fix poll :: "env \<Rightarrow> jsstring \<Rightarrow> operation \<Rightarrow> world \<Rightarrow> (world \<times> (js_error + operation)) option"
  fix E key opn w y
  assume IH: "\<And>E key opn w y. poll E key opn w = Some y \<Longrightarrow>
     \<exists>rest. trace (fst y) = trace w @ rest \<and> (\<forall>ev\<in>set rest. madeWithKey key ev)"
  assume body: "(if op_done opn then Some (w, Inr opn)
      else case callGetVideosOperation E key opn (emit (SetTimeout 5000) w) of
           (w1, Inl e) \<Rightarrow> Some (w1, Inl e)
         | (w1, Inr opn1) \<Rightarrow> poll E key opn1 w1) = Some y"
  show "\<exists>rest. trace (fst y) = trace w @ rest \<and> (\<forall>ev\<in>set rest. madeWithKey key ev)"
  proof (cases "op_done opn")
    case True
    with body have "y = (w, Inr opn)" by simp
    then show ?thesis by simp
  next
    case False
    let ?w1 = "emit (GetVideosOperation key opn) (emit (SetTimeout 5000) w)"
    show ?thesis
    proof (cases "getVideosOperation E (trace (emit (SetTimeout 5000) w)) key opn")
      case (Inl e)
      with False body have "y = (?w1, Inl e)"
        by (simp add: callGetVideosOperation_def)
      then show ?thesis by (simp add: madeWithKey_def)
    next
      case (Inr opn1)
      with False body have "poll E key opn1 ?w1 = Some y"
        by (simp add: callGetVideosOperation_def)
      from IH [OF this] obtain rest where
        "trace (fst y) = trace ?w1 @ rest" "\<forall>ev\<in>set rest. madeWithKey key ev" by blast
      then show ?thesis
        by (intro exI [of _ "SetTimeout 5000 # GetVideosOperation key opn # rest"])
           (simp add: madeWithKey_def)
    qed
  qed
qed

lemma veoTry_trace:
  assumes "veoTry E key m p img ratio w0 = Some (w1, r)"
  shows "\<exists>rest. trace w1 = trace w0 @ GenerateVideos (videoRequest key m p img ratio) # rest \<and>
                (\<forall>ev\<in>set rest. madeWithKey key ev)"
proof -
  let ?req = "videoRequest key m p img ratio"
  let ?ws = "emit (GenerateVideos ?req) w0"
  show ?thesis
  proof (cases "generateVideos E (trace w0) ?req")
    case (Inl e)
    with assms have "w1 = ?ws" by (simp add: veoTry_def callGenerateVideos_def)
    then show ?thesis by simp
  next
    case (Inr opn)
    show ?thesis
    proof (cases "pollOperation E key opn ?ws")
      case None
      with Inr assms show ?thesis by (simp add: veoTry_def callGenerateVideos_def)
    next
      case (Some y)
      obtain w2 r2 where y: "y = (w2, r2)" by (cases y)
      from pollOperation_trace [OF Some] y obtain rest where
        rest: "trace w2 = trace ?ws @ rest" "\<forall>ev\<in>set rest. madeWithKey key ev" by auto
      have "w1 = w2 \<or> (\<exists>uri res. w1 = emit (Fetch \<lparr> url = uri @ js ''&key='' @ key,
                 http_method = js ''GET'', headers = [], body = None \<rparr>) w2)"
        using Inr Some y assms
        by (auto simp: veoTry_def callGenerateVideos_def callFetch_def
              split: sum.splits option.splits if_splits)
      then show ?thesis
      proof
        assume "w1 = w2"
        with rest show ?thesis by simp
      next
        assume "\<exists>uri res. w1 = emit (Fetch \<lparr> url = uri @ js ''&key='' @ key,
                 http_method = js ''GET'', headers = [], body = None \<rparr>) w2"
        then obtain uri where "w1 = emit (Fetch \<lparr> url = uri @ js ''&key='' @ key,
                 http_method = js ''GET'', headers = [], body = None \<rparr>) w2" by blast
        with rest show ?thesis
          by (intro exI [of _ "rest @ [Fetch \<lparr> url = uri @ js ''&key='' @ key,
                 http_method = js ''GET'', headers = [], body = None \<rparr>]"])
             (simp add: madeWithKey_def suffix_def)
      qed
    qed
  qed
qed

lemma veoKey_trace:
  "prefix (trace w) (trace (fst (veoKey E cfg w)))"
  by (auto simp: veoKey_def Let_def callOpenSelectKey_def split: option.splits sum.splits)

lemma veoAttempt_retry_trace:
  assumes "veoAttempt E p img ratio cfg True w = Some (w', r)"
  shows "prefix (trace w) (trace w')"
proof -
  obtain w0 k where k: "veoKey E cfg w = (w0, k)" by (cases "veoKey E cfg w")
  with veoKey_trace [of w E cfg] have p0: "prefix (trace w) (trace w0)" by simp
  show ?thesis
  proof (cases k)
    case (Inl e)
    with k assms have "w' = w0" by (simp add: veoAttempt.simps [of E p img ratio cfg True w])
    with p0 show ?thesis by simp
  next
    case (Inr key)
    with k assms obtain r1 where "veoTry E key (veoModelName cfg) p img ratio w0 = Some (w', r1)"
      by (auto simp: veoAttempt.simps [of E p img ratio cfg True w]
            split: option.splits sum.splits)
    from veoTry_trace [OF this] have "prefix (trace w0) (trace w')" by (auto simp: prefix_def)
    with p0 show ?thesis by (rule prefix_order.order_trans)
  qed
qed

lemma veoAttempt_trace:
  assumes key: "veoKey E cfg w = (w0, Inr key)"
    and res: "veoAttempt E p img ratio cfg isRetry w = Some (w', r)"
  shows "\<exists>w1 r1 rest.
           veoTry E key (veoModelName cfg) p img ratio w0 = Some (w1, r1) \<and>
           trace w1 = trace w0 @
             GenerateVideos (videoRequest key (veoModelName cfg) p img ratio) # rest \<and>
           (\<forall>ev\<in>set rest. madeWithKey key ev) \<and>
           prefix (trace w1) (trace w')"
proof (cases "veoTry E key (veoModelName cfg) p img ratio w0")
  case None
  with key res show ?thesis by (simp add: veoAttempt.simps [of E p img ratio cfg isRetry w])
next
  case (Some y)
  obtain w1 r1 where y: "y = (w1, r1)" by (cases y)
  with Some have t: "veoTry E key (veoModelName cfg) p img ratio w0 = Some (w1, r1)" by simp
  from veoTry_trace [OF t] obtain rest where
    rest: "trace w1 = trace w0 @
             GenerateVideos (videoRequest key (veoModelName cfg) p img ratio) # rest"
      "\<forall>ev\<in>set rest. madeWithKey key ev" by blast
  have "prefix (trace w1) (trace w')"
  proof (cases "w' = w1")
    case True
    then show ?thesis by simp
  next
    case False
    with key t res obtain a e where
      a: "aistudio E = Some a" "r1 = Inl e" "\<not> isRetry" "isAuthError e"
      by (auto simp: veoAttempt.simps [of E p img ratio cfg isRetry w]
            split: sum.splits option.splits if_splits)
    from a(3) res have first: "veoAttempt E p img ratio cfg False w = Some (w', r)" by simp
    obtain w2 d where d: "callOpenSelectKey a w1 = (w2, d)" by (cases "callOpenSelectKey a w1")
    then have t2: "trace w2 = trace w1 @ [OpenSelectKey]" by (rule callOpenSelectKey_trace)
    show ?thesis
    proof (cases d)
      case (Inl e2)
      with key t first a(1,2,4) d have "w' = w2"
        by (simp add: veoAttempt.simps [of E p img ratio cfg False w])
      with t2 show ?thesis by simp
    next
      case (Inr u)
      with key t first a(1,2,4) d have "veoAttempt E p img ratio cfg True w2 = Some (w', r)"
        by (simp add: veoAttempt.simps [of E p img ratio cfg False w])
      from veoAttempt_retry_trace [OF this] t2 show ?thesis
        by (auto simp: prefix_def)
    qed
  qed
  with t rest show ?thesis by blast
qed

subsection \<open>The key of an attempt\<close>

lemma veoKey_config:
  assumes "usesConfigKey cfg"
  shows "veoKey E cfg w = (w, Inr (apiKey (the cfg)))"
proof -
  from assms obtain c where c: "cfg = Some c" "provider c = google" "apiKey c \<noteq> []"
    by (auto simp: usesConfigKey_def split: option.splits)
  then show ?thesis by (simp add: veoKey_def Let_def split: option.splits)
qed

lemma veoKey_ambient:
  assumes "\<not> usesConfigKey cfg"
  shows "veoKey E cfg w =
           (if API_KEY w \<noteq> None \<and> API_KEY w \<noteq> Some [] then (w, Inr (the (API_KEY w)))
            else
              (case aistudio E of
                 None \<Rightarrow> (w, Inl missingVeoKey)
               | Some a \<Rightarrow>
                   if hasSelectedApiKey a then
                     (case openSelectKey a (trace w) of
                        Inl e \<Rightarrow> (emit OpenSelectKey w, Inl e)
                      | Inr k \<Rightarrow>
                          (emit OpenSelectKey (w\<lparr>API_KEY := k\<rparr>),
                           if k = None \<or> k = Some [] then Inl missingVeoKey else Inr (the k)))
                   else (w, Inl missingVeoKey)))"
proof -
  from assms have k0: "(case cfg of
               Some c \<Rightarrow> if provider c = google \<and> apiKey c \<noteq> [] then Some (apiKey c) else API_KEY w
             | None \<Rightarrow> API_KEY w) = API_KEY w"
    by (auto simp: usesConfigKey_def split: option.splits)
  show ?thesis
    by (auto simp: veoKey_def Let_def k0 callOpenSelectKey_def emit_def
          split: option.splits sum.splits)
qed

text \<open>
  C10. The key of an attempt of \<open>generateVeoVideo\<close> is the key of the configuration
  exactly when there is a configuration, its provider is \<open>google\<close> and its key is not
  empty: then no dialog is opened. In every other case, also for a configuration of
  another provider with a key of its own, it is the process-level key: the one that is
  there, or else, when \<^verbatim>\<open>window.aistudio\<close> has \<^verbatim>\<open>hasSelectedApiKey\<close>, the one the
  key dialog leaves. The attempt fails before any request only when the configuration's
  key is not used and the process-level key is absent or empty, before and after the
  dialog: with the missing-key error, or with the error of a rejected dialog. With a key,
  the attempt goes on from the world the key was found in: its first request is the
  submission by the client of that key, and every later request of its \<^verbatim>\<open>try\<close> block
  (status requests, download) is made with that key.
\<close>

theorem veo_credential:
  "(usesConfigKey cfg \<longrightarrow> veoKey E cfg w = (w, Inr (apiKey (the cfg)))) \<and>
   (\<not> usesConfigKey cfg \<longrightarrow>
      veoKey E cfg w =
        (if API_KEY w \<noteq> None \<and> API_KEY w \<noteq> Some [] then (w, Inr (the (API_KEY w)))
         else
           (case aistudio E of
              None \<Rightarrow> (w, Inl missingVeoKey)
            | Some a \<Rightarrow>
                if hasSelectedApiKey a then
                  (case openSelectKey a (trace w) of
                     Inl e \<Rightarrow> (emit OpenSelectKey w, Inl e)
                   | Inr k \<Rightarrow>
                       (emit OpenSelectKey (w\<lparr>API_KEY := k\<rparr>),
                        if k = None \<or> k = Some [] then Inl missingVeoKey else Inr (the k)))
                else (w, Inl missingVeoKey)))) \<and>
   (case veoKey E cfg w of
      (w0, Inr key) \<Rightarrow>
        key \<noteq> [] \<and>
        (if usesConfigKey cfg then key = apiKey (the cfg) \<and> w0 = w
         else API_KEY w0 = Some key)
    | (w0, Inl e) \<Rightarrow>
        \<not> usesConfigKey cfg \<and> (API_KEY w = None \<or> API_KEY w = Some []) \<and>
        (API_KEY w0 = None \<or> API_KEY w0 = Some []) \<and>
        (e = missingVeoKey \<or>
         (\<exists>a. aistudio E = Some a \<and> hasSelectedApiKey a \<and> openSelectKey a (trace w) = Inl e))) \<and>
   generateVeoVideo E p img ratio cfg w = veoAttempt E p img ratio cfg False w \<and>
   (\<forall>w0 e. veoKey E cfg w = (w0, Inl e) \<longrightarrow>
      veoAttempt E p img ratio cfg isRetry w = Some (w0, Inl e) \<and>
      (since w w0 = [] \<or> since w w0 = [OpenSelectKey])) \<and>
   (\<forall>w0 key w' r.
      veoKey E cfg w = (w0, Inr key) \<and>
      veoAttempt E p img ratio cfg isRetry w = Some (w', r) \<longrightarrow>
        (\<exists>w1 r1 rest.
           veoTry E key (veoModelName cfg) p img ratio w0 = Some (w1, r1) \<and>
           trace w1 = trace w0 @
             GenerateVideos (videoRequest key (veoModelName cfg) p img ratio) # rest \<and>
           vid_clientKey (videoRequest key (veoModelName cfg) p img ratio) = key \<and>
           (\<forall>ev\<in>set rest. madeWithKey key ev) \<and>
           prefix (trace w1) (trace w')))"
proof (intro conjI allI impI)
  assume "usesConfigKey cfg"
  then show "veoKey E cfg w = (w, Inr (apiKey (the cfg)))" by (rule veoKey_config)
next
  assume "\<not> usesConfigKey cfg"
  then show "veoKey E cfg w =
        (if API_KEY w \<noteq> None \<and> API_KEY w \<noteq> Some [] then (w, Inr (the (API_KEY w)))
         else
           (case aistudio E of
              None \<Rightarrow> (w, Inl missingVeoKey)
            | Some a \<Rightarrow>
                if hasSelectedApiKey a then
                  (case openSelectKey a (trace w) of
                     Inl e \<Rightarrow> (emit OpenSelectKey w, Inl e)
                   | Inr k \<Rightarrow>
                       (emit OpenSelectKey (w\<lparr>API_KEY := k\<rparr>),
                        if k = None \<or> k = Some [] then Inl missingVeoKey else Inr (the k)))
                else (w, Inl missingVeoKey)))"
    by (rule veoKey_ambient)
next
  show "case veoKey E cfg w of
      (w0, Inr key) \<Rightarrow>
        key \<noteq> [] \<and>
        (if usesConfigKey cfg then key = apiKey (the cfg) \<and> w0 = w
         else API_KEY w0 = Some key)
    | (w0, Inl e) \<Rightarrow>
        \<not> usesConfigKey cfg \<and> (API_KEY w = None \<or> API_KEY w = Some []) \<and>
        (API_KEY w0 = None \<or> API_KEY w0 = Some []) \<and>
        (e = missingVeoKey \<or>
         (\<exists>a. aistudio E = Some a \<and> hasSelectedApiKey a \<and> openSelectKey a (trace w) = Inl e))"
  proof (cases "usesConfigKey cfg")
    case True
    moreover from True have "apiKey (the cfg) \<noteq> []"
      by (auto simp: usesConfigKey_def split: option.splits)
    ultimately show ?thesis by (simp add: veoKey_config)
  next
    case False
    show ?thesis
      unfolding veoKey_ambient [OF False] using False
      by (auto simp: emit_def split: option.splits sum.splits)
  qed
next
  show "generateVeoVideo E p img ratio cfg w = veoAttempt E p img ratio cfg False w"
    by (simp add: generateVeoVideo_def)
next
  fix w0 e
  assume k: "veoKey E cfg w = (w0, Inl e)"
  then show "veoAttempt E p img ratio cfg isRetry w = Some (w0, Inl e)"
    by (simp add: veoAttempt.simps [of E p img ratio cfg isRetry w])
  from k have "\<not> usesConfigKey cfg" by (auto simp: veoKey_config)
  from k [unfolded veoKey_ambient [OF this]]
  show "since w w0 = [] \<or> since w w0 = [OpenSelectKey]"
    by (auto simp: since_def emit_def split: option.splits sum.splits if_splits)
next
  fix w0 key w' r
  assume a: "veoKey E cfg w = (w0, Inr key) \<and>
      veoAttempt E p img ratio cfg isRetry w = Some (w', r)"
  then have k: "veoKey E cfg w = (w0, Inr key)"
    and res: "veoAttempt E p img ratio cfg isRetry w = Some (w', r)" by simp_all
  from veoAttempt_trace [OF k res]
  show "\<exists>w1 r1 rest.
           veoTry E key (veoModelName cfg) p img ratio w0 = Some (w1, r1) \<and>
           trace w1 = trace w0 @
             GenerateVideos (videoRequest key (veoModelName cfg) p img ratio) # rest \<and>
           vid_clientKey (videoRequest key (veoModelName cfg) p img ratio) = key \<and>
           (\<forall>ev\<in>set rest. madeWithKey key ev) \<and>
           prefix (trace w1) (trace w')"
    by (auto simp: videoRequest_def)
qed

text \<open>
  The theorem at a configuration of another provider with a key of its own (the
  process-level key is used, for the submission and the download), at a \<open>google\<close>
  configuration (its key is used), and at a start without any key where the dialog
  leaves none (the missing-key error, and no request).
\<close>

theorem veo_credential_witness:
  "\<not> usesConfigKey (Some openaiConfig) \<and> apiKey openaiConfig = js ''sk-test'' \<and>
   veoKey readyVideoEnv (Some openaiConfig) \<lparr> API_KEY = Some (js ''env-key''), trace = [] \<rparr>
    = (\<lparr> API_KEY = Some (js ''env-key''), trace = [] \<rparr>, Inr (js ''env-key'')) \<and>
   generateVeoVideo readyVideoEnv (js ''A fox runs'') None Landscape_16_9 (Some openaiConfig)
      \<lparr> API_KEY = Some (js ''env-key''), trace = [] \<rparr>
    = Some (\<lparr> API_KEY = Some (js ''env-key''),
               trace = [GenerateVideos (videoRequest (js ''env-key'') (js ''veo-3.1-fast-generate-preview'')
                          (js ''A fox runs'') None Landscape_16_9),
                        Fetch \<lparr> url = js ''https://video.example/1?alt=media&key=env-key'',
                                http_method = js ''GET'', headers = [], body = None \<rparr>] \<rparr>,
            Inr (js ''blob:video'')) \<and>
   madeWithKey (js ''env-key'')
     (Fetch \<lparr> url = js ''https://video.example/1?alt=media&key=env-key'',
              http_method = js ''GET'', headers = [], body = None \<rparr>) \<and>
   usesConfigKey (Some googleConfig) \<and>
   veoKey readyVideoEnv (Some googleConfig) \<lparr> API_KEY = Some (js ''env-key''), trace = [] \<rparr>
    = (\<lparr> API_KEY = Some (js ''env-key''), trace = [] \<rparr>, Inr (js ''key-1'')) \<and>
   veoKey (scriptedEnv [] [] [] [] (Some (studioWith []))) (Some openaiConfig) startWorld
    = (\<lparr> API_KEY = Some [], trace = [OpenSelectKey] \<rparr>, Inl missingVeoKey) \<and>
   generateVeoVideo (scriptedEnv [] [] [] [] (Some (studioWith []))) (js ''A fox runs'') None
      Landscape_16_9 (Some openaiConfig) startWorld
    = Some (\<lparr> API_KEY = Some [], trace = [OpenSelectKey] \<rparr>, Inl missingVeoKey)"
proof -
  let ?E = readyVideoEnv
  let ?S = "scriptedEnv [] [] [] [] (Some (studioWith []))"
  let ?w = "\<lparr> API_KEY = Some (js ''env-key''), trace = [] \<rparr>"
  let ?req = "videoRequest (js ''env-key'') (js ''veo-3.1-fast-generate-preview'')
                (js ''A fox runs'') None Landscape_16_9"
  let ?get = "Fetch \<lparr> url = js ''https://video.example/1?alt=media&key=env-key'',
                http_method = js ''GET'', headers = [], body = None \<rparr>"
  let ?w' = "\<lparr> API_KEY = Some (js ''env-key''), trace = [GenerateVideos ?req, ?get] \<rparr>"
  have u1: "\<not> usesConfigKey (Some openaiConfig)"
    by (simp add: usesConfigKey_def openaiConfig_def)
  have u2: "usesConfigKey (Some googleConfig)"
    by (simp add: usesConfigKey_def googleConfig_def js_def)
  have own: "apiKey openaiConfig = js ''sk-test''" by (simp add: openaiConfig_def)
  have present: "API_KEY ?w \<noteq> None \<and> API_KEY ?w \<noteq> Some []" by (simp add: js_def)
  note t1 = veo_credential [where E = ?E and cfg = "Some openaiConfig" and w = ?w
      and p = "js ''A fox runs''" and img = None and ratio = Landscape_16_9 and isRetry = False]
  from t1 [THEN conjunct2, THEN conjunct1, rule_format, OF u1] present
  have k1: "veoKey ?E (Some openaiConfig) ?w = (?w, Inr (js ''env-key''))" by simp
  have model: "veoModelName (Some openaiConfig) = js ''veo-3.1-fast-generate-preview''"
    by (simp add: veoModelName_def openaiConfig_def orElse_def js_def)
  have try1: "veoTry ?E (js ''env-key'') (veoModelName (Some openaiConfig)) (js ''A fox runs'') None
                Landscape_16_9 ?w = Some (?w', Inr (js ''blob:video''))"
    unfolding model
    by (simp add: veoTry_def callGenerateVideos_def callFetch_def readyVideoEnv_def run
          pollOperation_done)
       (simp add: js_def)
  have call1: "generateVeoVideo ?E (js ''A fox runs'') None Landscape_16_9 (Some openaiConfig) ?w
                 = Some (?w', Inr (js ''blob:video''))"
    by (simp add: generateVeoVideo_def
          veoAttempt.simps [of ?E "js ''A fox runs''" None Landscape_16_9 "Some openaiConfig" False ?w]
          k1 try1)
  from t1 [THEN conjunct2, THEN conjunct2, THEN conjunct2, THEN conjunct2, THEN conjunct2,
      rule_format, OF conjI [OF k1 call1 [unfolded generateVeoVideo_def]]]
  obtain w1 r1 rest where
    used: "veoTry ?E (js ''env-key'') (veoModelName (Some openaiConfig)) (js ''A fox runs'') None
             Landscape_16_9 ?w = Some (w1, r1)"
      "trace w1 = trace ?w @ GenerateVideos (videoRequest (js ''env-key'')
          (veoModelName (Some openaiConfig)) (js ''A fox runs'') None Landscape_16_9) # rest"
      "\<forall>ev\<in>set rest. madeWithKey (js ''env-key'') ev"
    by blast
  from used(1) try1 have "w1 = ?w'" by simp
  with used(2) have "rest = [?get]" by (simp add: model)
  with used(3) have keyed: "madeWithKey (js ''env-key'') ?get" by simp
  from veo_credential [where E = ?E and cfg = "Some googleConfig" and w = ?w,
      THEN conjunct1, rule_format, OF u2]
  have k2: "veoKey ?E (Some googleConfig) ?w = (?w, Inr (js ''key-1''))"
    by (simp add: googleConfig_def)
  note t3 = veo_credential [where E = ?S and cfg = "Some openaiConfig" and w = startWorld
      and p = "js ''A fox runs''" and img = None and ratio = Landscape_16_9 and isRetry = False]
  from t3 [THEN conjunct2, THEN conjunct1, rule_format, OF u1]
  have k3: "veoKey ?S (Some openaiConfig) startWorld
              = (\<lparr> API_KEY = Some [], trace = [OpenSelectKey] \<rparr>, Inl missingVeoKey)"
    by (simp add: scriptedEnv_def studioWith_def startWorld_def emit_def)
  from t3 [THEN conjunct2, THEN conjunct2, THEN conjunct2, THEN conjunct2, THEN conjunct1,
      rule_format, OF k3]
  have call3: "generateVeoVideo ?S (js ''A fox runs'') None Landscape_16_9 (Some openaiConfig) startWorld
                 = Some (\<lparr> API_KEY = Some [], trace = [OpenSelectKey] \<rparr>, Inl missingVeoKey)"
    by (simp add: generateVeoVideo_def)
  from u1 own k1 call1 keyed u2 k2 k3 call3 show ?thesis by blast
qed

section \<open>The response extractor: round trip\<close>

subsection \<open>Trimming and the fenced block\<close>

lemma dropWhile_stop: "\<not> P c \<Longrightarrow> dropWhile P (p @ c # r) = dropWhile P p @ c # r"
  by (induction p) auto

lemma trimStart_stop: "\<not> isWhiteSpace c \<Longrightarrow> trimStart (p @ c # r) = trimStart p @ c # r"
  by (simp add: trimStart_def dropWhile_stop)

lemma trimEnd_stop: "\<not> isWhiteSpace c \<Longrightarrow> trimEnd (r @ c # q) = r @ c # trimEnd q"
  using dropWhile_stop [of isWhiteSpace c "rev q" "rev r"] by (simp add: trimEnd_def)

lemma trimEnd_white: "\<forall>c\<in>set w. isWhiteSpace c \<Longrightarrow> trimEnd w = []"
  by (simp add: trimEnd_def)

lemma set_trimStart: "set (trimStart p) \<subseteq> set p"
  by (auto simp: trimStart_def dest: set_dropWhileD)

lemma set_trimEnd: "set (trimEnd q) \<subseteq> set q"
  by (auto simp: trimEnd_def dest: set_dropWhileD)

lemma not_white [simp]: "\<not> isWhiteSpace 123" "\<not> isWhiteSpace 125" "\<not> isWhiteSpace 96"
  by (simp_all add: isWhiteSpace_def)

lemma trim_around:
  "trim (p @ (123 # m @ [125]) @ q) = trimStart p @ (123 # m @ [125]) @ trimEnd q"
proof -
  have "trimStart (p @ 123 # (m @ [125] @ q)) = trimStart p @ 123 # (m @ [125] @ q)"
    by (rule trimStart_stop) simp
  moreover have "trimEnd ((trimStart p @ 123 # m) @ 125 # q) = (trimStart p @ 123 # m) @ 125 # trimEnd q"
    by (rule trimEnd_stop) simp
  ultimately show ?thesis by (simp add: trim_def)
qed

lemma findFence_none: "96 \<notin> set t \<Longrightarrow> findFence t = None"
  by (induction t) (auto simp: js_def)

lemma findFence_first: "96 \<notin> set p \<Longrightarrow> findFence (p @ js ''```'' @ r) = Some (p, r)"
  by (induction p) (auto simp: js_def)

lemma markdownMatch_none: "96 \<notin> set t \<Longrightarrow> markdownMatch t = None"
  by (simp add: markdownMatch_def findFence_none)

lemma unwrapMarkdown_prose:
  assumes "96 \<notin> set p" and "96 \<notin> set m" and "96 \<notin> set q"
  shows "unwrapMarkdown (p @ (123 # m @ [125]) @ q) = trimStart p @ (123 # m @ [125]) @ trimEnd q"
proof -
  have "96 \<notin> set (trimStart p @ (123 # m @ [125]) @ trimEnd q)"
    using assms set_trimStart [of p] set_trimEnd [of q] by auto
  then have mm: "markdownMatch (trimStart p @ (123 # m @ [125]) @ trimEnd q) = None"
    by (rule markdownMatch_none)
  show ?thesis
    by (simp only: unwrapMarkdown_def trim_around Let_def mm option.case)
qed

lemma extract_prose:
  assumes "123 \<notin> set p" and "91 \<notin> set p" and "96 \<notin> set p"
    and "96 \<notin> set m" and "125 \<notin> set q" and "96 \<notin> set q"
  shows "outerBounds (unwrapMarkdown (p @ (123 # m @ [125]) @ q)) = 123 # m @ [125]"
proof -
  have "123 \<notin> set (trimStart p)" "91 \<notin> set (trimStart p)" "125 \<notin> set (trimEnd q)"
    using assms set_trimStart [of p] set_trimEnd [of q] by auto
  then have "outerBounds (trimStart p @ (123 # m @ [125]) @ trimEnd q) = 123 # m @ [125]"
    by (rule outerBounds_object)
  moreover have "unwrapMarkdown (p @ (123 # m @ [125]) @ q)
      = trimStart p @ (123 # m @ [125]) @ trimEnd q"
    using assms(3,4,6) by (rule unwrapMarkdown_prose)
  ultimately show ?thesis by simp
qed

lemma trim_fence:
  "trim (p @ js ''```'' @ x @ js ''```'' @ q) = trimStart p @ js ''```'' @ x @ js ''```'' @ trimEnd q"
proof -
  have a: "trimStart (p @ 96 # ([96, 96] @ x @ js ''```'' @ q))
             = trimStart p @ 96 # ([96, 96] @ x @ js ''```'' @ q)"
    by (rule trimStart_stop) simp
  have b: "trimEnd ((trimStart p @ js ''```'' @ x @ [96, 96]) @ 96 # q)
             = (trimStart p @ js ''```'' @ x @ [96, 96]) @ 96 # trimEnd q"
    by (rule trimEnd_stop) simp
  from a b show ?thesis by (simp add: trim_def js_def)
qed

lemma extract_fenced:
  assumes p: "96 \<notin> set p" and m: "96 \<notin> set m"
    and tag: "tag = [] \<or> tag = js ''json''"
    and w1: "\<forall>c\<in>set w1. isWhiteSpace c" and w2: "\<forall>c\<in>set w2. isWhiteSpace c"
  shows "outerBounds (unwrapMarkdown
           (p @ js ''```'' @ tag @ w1 @ (123 # m @ [125]) @ w2 @ js ''```'' @ q))
         = 123 # m @ [125]"
proof -
  let ?s = "123 # m @ [125]"
  let ?r = "tag @ w1 @ ?s @ w2 @ js ''```'' @ trimEnd q"
  have tr: "trim (p @ js ''```'' @ tag @ w1 @ ?s @ w2 @ js ''```'' @ q)
              = trimStart p @ js ''```'' @ ?r"
    using trim_fence [of p "tag @ w1 @ ?s @ w2" q] by simp
  have f1: "findFence (trimStart p @ js ''```'' @ ?r) = Some (trimStart p, ?r)"
    using p set_trimStart [of p] by (intro findFence_first) auto
  have r1: "(if prefix (js ''json'') ?r then drop 4 ?r else ?r) = w1 @ ?s @ w2 @ js ''```'' @ trimEnd q"
  proof (cases "tag = []")
    case True
    have "\<not> prefix (js ''json'') (w1 @ ?s @ w2 @ js ''```'' @ trimEnd q)"
    proof (cases w1)
      case Nil
      then show ?thesis by (simp add: js_def)
    next
      case (Cons c cs)
      with w1 have "isWhiteSpace c" by simp
      then have "c \<noteq> 106" by (auto simp: isWhiteSpace_def)
      with Cons show ?thesis by (simp add: js_def)
    qed
    with True show ?thesis by simp
  next
    case False
    with tag have "tag = js ''json''" by simp
    then show ?thesis by (simp add: js_def)
  qed
  have r2: "dropWhile isWhiteSpace (w1 @ ?s @ w2 @ js ''```'' @ trimEnd q)
              = (?s @ w2) @ js ''```'' @ trimEnd q"
    using w1 by (simp add: dropWhile_append2)
  have nb: "96 \<notin> set (?s @ w2)"
    using m w2 by auto
  have f2: "findFence ((?s @ w2) @ js ''```'' @ trimEnd q) = Some (?s @ w2, trimEnd q)"
    using nb by (rule findFence_first)
  have te: "trimEnd (?s @ w2) = ?s"
    using trimEnd_stop [of 125 "123 # m" w2] trimEnd_white [OF w2] by simp
  have mm: "markdownMatch (trimStart p @ js ''```'' @ ?r) = Some ?s"
    by (simp only: markdownMatch_def f1 option.case prod.case Let_def r1 r2 f2 te)
  have ts: "trim ?s = ?s"
    using trim_around [of "[]" m "[]"] by (simp add: trimStart_def trimEnd_def)
  have "unwrapMarkdown (p @ js ''```'' @ tag @ w1 @ ?s @ w2 @ js ''```'' @ q) = ?s"
    by (simp only: unwrapMarkdown_def tr Let_def mm option.case ts)
  moreover have "outerBounds ([] @ ?s @ []) = ?s"
    by (rule outerBounds_object) simp_all
  ultimately show ?thesis by simp
qed

subsection \<open>The trailing-comma repair\<close>

lemma fixTrailingCommas_closer:
  assumes "\<forall>u\<in>set w. isWhiteSpace u" and "c = 125 \<or> c = 93"
  shows "fixTrailingCommas (44 # w @ c # b) = w @ c # fixTrailingCommas b"
proof -
  have nw: "\<not> isWhiteSpace c" using assms(2) by (auto simp: isWhiteSpace_def)
  have d: "dropWhile isWhiteSpace (w @ c # b) = c # b"
    using assms(1) nw by (simp add: dropWhile_append2)
  have t: "takeWhile isWhiteSpace (w @ c # b) = w"
    using assms(1) nw by (simp add: takeWhile_append2)
  show ?thesis using assms(2) by (auto simp: d t)
qed

lemma fixTrailingCommas_white:
  assumes "\<forall>u\<in>set w. isWhiteSpace u"
  shows "fixTrailingCommas (w @ r) = w @ fixTrailingCommas r"
  using assms
proof (induction w)
  case Nil
  then show ?case by simp
next
  case (Cons u w)
  then have "u \<noteq> 44" by (auto simp: isWhiteSpace_def)
  with Cons show ?case by simp
qed

lemma fixTrailingCommas_comma_kept:
  assumes "fixTrailingCommas (44 # r) = 44 # r"
  shows "fixTrailingCommas r = r \<and>
         (\<forall>d x. dropWhile isWhiteSpace r = d # x \<longrightarrow> d \<noteq> 125 \<and> d \<noteq> 93)"
proof (cases "dropWhile isWhiteSpace r")
  case Nil
  with assms show ?thesis by (simp del: dropWhile_eq_Nil_conv)
next
  case (Cons d x)
  show ?thesis
  proof (cases "d = 125 \<or> d = 93")
    case False
    with assms Cons show ?thesis by simp
  next
    case True
    have r: "r = takeWhile isWhiteSpace r @ d # x"
      using Cons by (metis takeWhile_dropWhile_id)
    from assms Cons True
    have "takeWhile isWhiteSpace r @ d # fixTrailingCommas x = 44 # r" by auto
    then have "length (takeWhile isWhiteSpace r) + 1 + length (fixTrailingCommas x) = 1 + length r"
      by (metis length_append length_Cons One_nat_def Suc_eq_plus1 add.assoc add.commute plus_1_eq_Suc)
    moreover have "length r = length (takeWhile isWhiteSpace r) + 1 + length x"
      using arg_cong [OF r, of length] by simp
    moreover have "length (fixTrailingCommas x) \<le> length x" by (rule length_fixTrailingCommas)
    ultimately show ?thesis by simp
  qed
qed

lemma fixTrailingCommas_removes:
  assumes w: "\<forall>u\<in>set w. isWhiteSpace u" and c: "c = 125 \<or> c = 93"
  shows "fixTrailingCommas (a @ w @ c # b) = a @ w @ c # b
         \<Longrightarrow> fixTrailingCommas (a @ 44 # w @ c # b) = a @ w @ c # b"
proof (induction a)
  case Nil
  have nc: "c \<noteq> 44" using c by auto
  from Nil have "w @ fixTrailingCommas (c # b) = w @ c # b"
    using fixTrailingCommas_white [OF w, of "c # b"] by simp
  then have "fixTrailingCommas b = b" using nc by simp
  then show ?case using fixTrailingCommas_closer [OF w c, of b] by simp
next
  case (Cons x a)
  let ?s = "a @ w @ c # b" and ?t = "a @ 44 # w @ c # b"
  show ?case
  proof (cases "x = 44")
    case False
    with Cons show ?thesis by simp
  next
    case True
    from Cons.prems True have k: "fixTrailingCommas (44 # ?s) = 44 # ?s" by simp
    from fixTrailingCommas_comma_kept [OF k]
    have s: "fixTrailingCommas ?s = ?s"
      and h: "\<And>d y. dropWhile isWhiteSpace ?s = d # y \<Longrightarrow> d \<noteq> 125 \<and> d \<noteq> 93" by blast+
    have nw: "\<not> isWhiteSpace c" using c by (auto simp: isWhiteSpace_def)
    have ex: "\<exists>y\<in>set a. \<not> isWhiteSpace y"
    proof (rule ccontr)
      assume "\<not> ?thesis"
      then have "\<forall>y\<in>set (a @ w). isWhiteSpace y" using w by auto
      then have "dropWhile isWhiteSpace ((a @ w) @ c # b) = c # b"
        using nw by (simp only: dropWhile_append2 dropWhile.simps if_False)
      with h [of c b] c show False by simp
    qed
    then obtain y where y: "y \<in> set a" "\<not> isWhiteSpace y" by blast
    then obtain d z where da: "dropWhile isWhiteSpace a = d # z"
      by (cases "dropWhile isWhiteSpace a") auto
    have ds: "dropWhile isWhiteSpace ?s = d # z @ w @ c # b"
      using y da by (simp add: dropWhile_append1)
    have dt: "dropWhile isWhiteSpace ?t = d # z @ 44 # w @ c # b"
      using y da by (simp add: dropWhile_append1)
    from h [OF ds] have "\<not> (d = 125 \<or> d = 93)" by simp
    then have "fixTrailingCommas (44 # ?t) = 44 # fixTrailingCommas ?t"
      by (simp add: dt)
    with Cons.IH [OF s] True show ?thesis by simp
  qed
qed

lemma trailing_comma_shape:
  assumes s: "123 # m @ [125] = a @ w @ c # b"
    and w: "\<forall>u\<in>set w. isWhiteSpace u" and c: "c = 125 \<or> c = 93" and m: "96 \<notin> set m"
  shows "\<exists>n. a @ 44 # w @ c # b = 123 # n @ [125] \<and> 96 \<notin> set n"
proof -
  have "a \<noteq> []"
  proof
    assume "a = []"
    with s have "123 # m @ [125] = w @ c # b" by simp
    then show False using w c by (cases w) (auto simp: isWhiteSpace_def)
  qed
  then obtain a' where a: "a = 123 # a'" using s by (cases a) auto
  with s have m': "m @ [125] = a' @ w @ c # b" by simp
  show ?thesis
  proof (cases b rule: rev_cases)
    case Nil
    with m' have "m @ [125] = (a' @ w) @ [c]" by simp
    then have "m = a' @ w" "c = 125" by simp_all
    with a Nil m show ?thesis by (intro exI [of _ "a' @ 44 # w"]) auto
  next
    case (snoc b' z)
    with m' have "m @ [125] = (a' @ w @ c # b') @ [z]" by simp
    then have "m = a' @ w @ c # b'" "z = 125" by simp_all
    with a snoc m show ?thesis by (intro exI [of _ "a' @ 44 # w @ c # b'"]) auto
  qed
qed

lemma safeJSONParse_of_cleaned:
  assumes "outerBounds (unwrapMarkdown x) = t"
    and "JSON_parse t = Inr D \<or> (isl (JSON_parse t) \<and> JSON_parse (fixTrailingCommas t) = Inr D)"
  shows "snd (safeJSONParse x) = Inr D"
  using assms by (auto simp: safeJSONParse_cases isl_def)

text \<open>
  C4, as the code has it. Let \<open>s\<close> be a text that \<^verbatim>\<open>JSON.parse\<close> reads as the
  document \<open>D\<close>, beginning with an opening brace and ending with a closing brace (as the
  serialization of either target shape does), with no backtick in it. Let \<open>t\<close> be \<open>s\<close>
  itself, or \<open>s\<close> with one comma put before a closing brace or bracket (and the white space
  in front of it), where \<open>s\<close> holds no other comma that the repair would remove and the
  strict parse rejects \<open>t\<close>. Then the extractor returns \<open>D\<close>

    \<^item> on \<open>t\<close> between prose: the prose before it holds no opening brace, no opening
      bracket and no backtick, the prose after it no closing brace and no backtick;

    \<^item> on \<open>t\<close> in a fenced block, with or without the tag \<^verbatim>\<open>json\<close> and with white
      space inside the fences: the text before the block holds no backtick, the text after
      it is arbitrary.
\<close>

theorem extraction_round_trip:
  assumes doc: "JSON_parse s = Inr D"
    and shape: "s = 123 # m @ [125]" "96 \<notin> set m"
    and comma: "t = s \<or>
                (s = a @ w @ c # b \<and> t = a @ 44 # w @ c # b \<and> (c = 125 \<or> c = 93) \<and>
                 (\<forall>u\<in>set w. isWhiteSpace u) \<and> fixTrailingCommas s = s \<and> isl (JSON_parse t))"
    and prose: "123 \<notin> set p" "91 \<notin> set p" "96 \<notin> set p" "125 \<notin> set q" "96 \<notin> set q"
    and fence: "96 \<notin> set p'" "tag = [] \<or> tag = js ''json''"
               "\<forall>u\<in>set w1. isWhiteSpace u" "\<forall>u\<in>set w2. isWhiteSpace u"
  shows "snd (safeJSONParse (p @ t @ q)) = Inr D \<and>
         snd (safeJSONParse (p' @ js ''```'' @ tag @ w1 @ t @ w2 @ js ''```'' @ q')) = Inr D"
proof -
  have parse: "JSON_parse t = Inr D \<or> (isl (JSON_parse t) \<and> JSON_parse (fixTrailingCommas t) = Inr D)"
    using comma
  proof
    assume "t = s"
    with doc show ?thesis by simp
  next
    assume k: "s = a @ w @ c # b \<and> t = a @ 44 # w @ c # b \<and> (c = 125 \<or> c = 93) \<and>
               (\<forall>u\<in>set w. isWhiteSpace u) \<and> fixTrailingCommas s = s \<and> isl (JSON_parse t)"
    then have "fixTrailingCommas (a @ 44 # w @ c # b) = a @ w @ c # b"
      by (intro fixTrailingCommas_removes) auto
    with k have "fixTrailingCommas t = s" by simp
    with doc have "JSON_parse (fixTrailingCommas t) = Inr D" by simp
    moreover from k have "isl (JSON_parse t)" by blast
    ultimately show ?thesis by blast
  qed
  obtain n where n: "t = 123 # n @ [125]" "96 \<notin> set n"
    using comma
  proof
    assume "t = s"
    with shape that show ?thesis by simp
  next
    assume k: "s = a @ w @ c # b \<and> t = a @ 44 # w @ c # b \<and> (c = 125 \<or> c = 93) \<and>
               (\<forall>u\<in>set w. isWhiteSpace u) \<and> fixTrailingCommas s = s \<and> isl (JSON_parse t)"
    with shape trailing_comma_shape [of m a w c b] that show ?thesis by auto
  qed
  have 1: "outerBounds (unwrapMarkdown (p @ t @ q)) = t"
    unfolding n(1) using prose(1-3) n(2) prose(4,5) by (rule extract_prose)
  have 2: "outerBounds (unwrapMarkdown (p' @ js ''```'' @ tag @ w1 @ t @ w2 @ js ''```'' @ q')) = t"
    unfolding n(1) using fence(1) n(2) fence(2-4) by (rule extract_fenced)
  from safeJSONParse_of_cleaned [OF 1 parse] safeJSONParse_of_cleaned [OF 2 parse]
  show ?thesis by simp
qed

text \<open>
  The theorem at a polish response with a trailing comma before its closing brace, once
  between two sentences and once in a fenced block tagged \<^verbatim>\<open>json\<close>.
\<close>

theorem extraction_round_trip_witness:
  \<open>JSON_parse (js ''{"critique":"ok","rewritten_story":"Once.","changes_made":[]}'') = Inr polishDocument \<and>
   isl (JSON_parse (js ''{"critique":"ok","rewritten_story":"Once.","changes_made":[],}'')) \<and>
   snd (safeJSONParse (js ''Here is the result: '' @
          js ''{"critique":"ok","rewritten_story":"Once.","changes_made":[],}'' @
          js '' Hope it helps.'')) = Inr polishDocument \<and>
   snd (safeJSONParse (js ''Sure: '' @ js ''```'' @ js ''json'' @ [10] @
          js ''{"critique":"ok","rewritten_story":"Once.","changes_made":[],}'' @
          [10] @ js ''```'' @ js '' Done {ok}'')) = Inr polishDocument\<close>
proof -
  let ?s = \<open>js ''{"critique":"ok","rewritten_story":"Once.","changes_made":[]}''\<close>
  let ?m = \<open>js ''"critique":"ok","rewritten_story":"Once.","changes_made":[]''\<close>
  let ?a = \<open>js ''{"critique":"ok","rewritten_story":"Once.","changes_made":[]''\<close>
  let ?t = \<open>js ''{"critique":"ok","rewritten_story":"Once.","changes_made":[],}''\<close>
  have doc: "JSON_parse ?s = Inr polishDocument"
    by (simp add: ev polishDocument_def)
  have shape: "?s = 123 # ?m @ [125]" "96 \<notin> set ?m"
    by (simp_all add: js_def)
  have rej: "isl (JSON_parse ?t)"
    by (simp add: ev)
  have kept: "fixTrailingCommas ?s = ?s"
    by (simp add: js_def isWhiteSpace_def)
  have comma: "?t = ?s \<or>
                (?s = ?a @ [] @ 125 # [] \<and> ?t = ?a @ 44 # [] @ 125 # [] \<and> ((125::nat) = 125 \<or> (125::nat) = 93) \<and>
                 (\<forall>u\<in>set []. isWhiteSpace u) \<and> fixTrailingCommas ?s = ?s \<and> isl (JSON_parse ?t))"
    using rej kept by (simp add: js_def)
  have prose: "123 \<notin> set (js ''Here is the result: '')" "91 \<notin> set (js ''Here is the result: '')"
    "96 \<notin> set (js ''Here is the result: '')" "125 \<notin> set (js '' Hope it helps.'')"
    "96 \<notin> set (js '' Hope it helps.'')"
    by (simp_all add: js_def)
  have fence: "96 \<notin> set (js ''Sure: '')" "js ''json'' = [] \<or> js ''json'' = js ''json''"
    "\<forall>u\<in>set [10]. isWhiteSpace u" "\<forall>u\<in>set [10]. isWhiteSpace u"
    by (simp_all add: js_def isWhiteSpace_def)
  from extraction_round_trip [OF doc shape comma prose fence, of "js '' Done {ok}''"] doc rej
  show ?thesis by simp
qed

text \<open>
  The claim as worded fails, in three ways. A prose prefix with an opening bracket makes
  the extractor cut from that bracket to the last closing bracket, and the cut does not
  parse. A document with a fence inside one of its strings, in a fenced block: the block
  ends at the fence in the string. A document with a comma, a space and a closing brace
  inside one of its strings, and a trailing comma before its last brace: the repair
  removes both commas, and the value returned is not the document.
\<close>

theorem extraction_prose_fence_comma_counterexample:
  \<open>JSON_parse (js ''{"critique":"ok","rewritten_story":"Once.","changes_made":[]}'') = Inr polishDocument \<and>
   snd (safeJSONParse (js ''[note] '' @
          js ''{"critique":"ok","rewritten_story":"Once.","changes_made":[]}'')) = Inl parseFailure \<and>
   JSON_parse (js ''{"critique":"no ``` here","rewritten_story":"Once.","changes_made":[]}'')
     = Inr (JObject [(js ''critique'', JString (js ''no ``` here'')),
                     (js ''rewritten_story'', JString (js ''Once.'')),
                     (js ''changes_made'', JArray [])]) \<and>
   snd (safeJSONParse (js ''```json'' @ [10] @
          js ''{"critique":"no ``` here","rewritten_story":"Once.","changes_made":[]}'' @
          [10] @ js ''```'')) = Inl parseFailure \<and>
   JSON_parse (js ''{"critique":"a, }","rewritten_story":"Once.","changes_made":[]}'')
     = Inr (JObject [(js ''critique'', JString (js ''a, }'')),
                     (js ''rewritten_story'', JString (js ''Once.'')),
                     (js ''changes_made'', JArray [])]) \<and>
   snd (safeJSONParse (js ''{"critique":"a, }","rewritten_story":"Once.","changes_made":[],}''))
     = Inr (JObject [(js ''critique'', JString (js ''a }'')),
                     (js ''rewritten_story'', JString (js ''Once.'')),
                     (js ''changes_made'', JArray [])])\<close>
  by (simp add: ev polishDocument_def)

end
